theory Spec2Isabelle
  imports Main "HOL-Library.Word"
begin

unbundle bit_operations_syntax

section \<open>Data model and operations\<close>

text \<open>
  The C++ sources are embedded as pure functions over explicit state.  Member names
  keep the source's spelling without the trailing underscore (\<open>pool_\<close> is
  \<open>pool\<close>); a name that clashes with a HOL constant carries a suffix
  (\<open>Chunk::length\<close> is \<open>length_c\<close>).  \<open>size_t\<close> values are natural
  numbers: every byte count of the pool is a sum of chunk capacities of at most 4 MiB
  each and stays far below \<open>2 ^ 64\<close>.  The payload array \<open>Chunk::data\<close> is not
  modelled; a chunk is its \<open>capacity / length / head\<close> triple.
\<close>

subsection \<open>Chunk (chunk.hpp, chunk.cpp)\<close>

record Chunk =
  capacity :: nat
  length_c :: nat
  head :: nat

definition Chunk_new :: "nat \<Rightarrow> Chunk" where
  "Chunk_new cap = \<lparr>capacity = cap, length_c = 0, head = 0\<rparr>"

definition Chunk_clear :: "Chunk \<Rightarrow> Chunk" where
  "Chunk_clear c = c\<lparr>length_c := 0, head := 0\<rparr>"

definition Chunk_adjust :: "Chunk \<Rightarrow> Chunk" where
  "Chunk_adjust c = (if head c \<noteq> 0 then c\<lparr>head := 0\<rparr> else c)"

definition Chunk_pop :: "nat \<Rightarrow> Chunk \<Rightarrow> Chunk" where
  "Chunk_pop n c =
     (if n \<ge> length_c c then c\<lparr>length_c := 0, head := 0\<rparr>
      else c\<lparr>head := head c + n, length_c := length_c c - n\<rparr>)"

text \<open>\<open>sys_ok\<close> says whether \<open>operator new\<close> succeeds (no \<open>std::bad_alloc\<close>).\<close>

definition Chunk_expand_capacity :: "bool \<Rightarrow> nat \<Rightarrow> Chunk \<Rightarrow> bool \<times> Chunk" where
  "Chunk_expand_capacity sys_ok new_capacity c =
     (if new_capacity \<le> capacity c then (False, c)
      else if sys_ok then (True, c\<lparr>head := 0, capacity := new_capacity\<rparr>)
      else (False, c))"

definition Chunk_ensure_capacity :: "bool \<Rightarrow> nat \<Rightarrow> Chunk \<Rightarrow> bool \<times> Chunk" where
  "Chunk_ensure_capacity sys_ok required_capacity c =
     (if required_capacity \<le> capacity c then (True, c)
      else Chunk_expand_capacity sys_ok (max (capacity c * 2) required_capacity) c)"

definition Chunk_copy :: "bool \<Rightarrow> Chunk option \<Rightarrow> Chunk \<Rightarrow> Chunk" where
  "Chunk_copy sys_ok other c =
     (case other of
        None \<Rightarrow> c\<lparr>length_c := 0\<rparr>
      | Some oth \<Rightarrow>
          if length_c oth = 0 then c\<lparr>length_c := 0\<rparr>
          else if length_c oth > capacity c then
            (case Chunk_ensure_capacity sys_ok (length_c oth) c of
               (False, c') \<Rightarrow> c'
             | (True, c') \<Rightarrow> c'\<lparr>head := 0, length_c := length_c oth\<rparr>)
          else c\<lparr>head := 0, length_c := length_c oth\<rparr>)"

subsection \<open>MemoryPool (memory_pool.hpp, memory_pool.cpp)\<close>

datatype pool_error = MemoryAllocationError | MemoryPoolExhaustedError

definition MEM_SIZES :: "nat list" where
  "MEM_SIZES = [4096, 4096 * 4, 4096 * 16, 4096 * 64, 4096 * 256, 4096 * 1024]"

record PoolStats =
  total_allocations :: nat
  total_deallocations :: nat
  peak_usage_bytes :: nat
  current_usage_bytes :: nat
  allocation_failures :: nat

text \<open>
  \<open>pool\<close> is the \<open>unordered_map<size_t, Chunk*>\<close> of free lists: a key with
  a null head is \<open>Some []\<close>, a missing key is \<open>None\<close>.  A chunk is owned either by
  one free list or by the caller it was handed to, so the lists hold chunk values.
\<close>

record MemoryPool =
  pool :: "nat \<rightharpoonup> Chunk list"
  max_capacity_bytes :: nat
  current_usage :: nat
  preallocated_bytes :: nat
  stats :: PoolStats

fun first_fit :: "nat list \<Rightarrow> nat \<Rightarrow> nat" where
  "first_fit [] requested_size = 0"
| "first_fit (s # ss) requested_size =
     (if requested_size \<le> s then s else first_fit ss requested_size)"

definition find_suitable_size :: "nat \<Rightarrow> nat" where
  "find_suitable_size requested_size = first_fit MEM_SIZES requested_size"

definition is_supported_size :: "nat \<Rightarrow> bool" where
  "is_supported_size s = (s \<in> set MEM_SIZES)"

definition preallocate_chunks :: "bool \<Rightarrow> nat \<Rightarrow> nat \<Rightarrow> MemoryPool \<Rightarrow> pool_error + MemoryPool" where
  "preallocate_chunks sys_ok chunk_size count p =
     (if chunk_size = 0 \<or> count = 0 then Inr p
      else if \<not> sys_ok then Inl MemoryAllocationError
      else if preallocated_bytes p + chunk_size * count > max_capacity_bytes p
        then Inl MemoryPoolExhaustedError
      else Inr (p\<lparr>pool := (pool p)(chunk_size \<mapsto>
                       replicate count (Chunk_new chunk_size) @
                         (case pool p chunk_size of None \<Rightarrow> [] | Some cs \<Rightarrow> cs)),
                  preallocated_bytes := preallocated_bytes p + chunk_size * count\<rparr>))"

fun preallocate_all :: "bool \<Rightarrow> (nat \<times> nat) list \<Rightarrow> MemoryPool \<Rightarrow> pool_error + MemoryPool" where
  "preallocate_all sys_ok [] p = Inr p"
| "preallocate_all sys_ok ((chunk_size, count) # rest) p =
     (case preallocate_chunks sys_ok chunk_size count p of
        Inl e \<Rightarrow> Inl e
      | Inr p' \<Rightarrow> preallocate_all sys_ok rest p')"

definition initialize_pool :: "bool \<Rightarrow> MemoryPool \<Rightarrow> pool_error + MemoryPool" where
  "initialize_pool sys_ok p =
     preallocate_all sys_ok
       [(MEM_SIZES ! 0, 200), (MEM_SIZES ! 1, 50), (MEM_SIZES ! 2, 20),
        (MEM_SIZES ! 3, 10), (MEM_SIZES ! 4, 5), (MEM_SIZES ! 5, 2)] p"

definition PoolStats_zero :: PoolStats where
  "PoolStats_zero = \<lparr>total_allocations = 0, total_deallocations = 0, peak_usage_bytes = 0,
                     current_usage_bytes = 0, allocation_failures = 0\<rparr>"

definition MemoryPool_ctor :: "bool \<Rightarrow> pool_error + MemoryPool" where
  "MemoryPool_ctor sys_ok =
     initialize_pool sys_ok
       \<lparr>pool = fold (\<lambda>s m. m(s \<mapsto> [])) MEM_SIZES Map.empty,
        max_capacity_bytes = 128 * 1024 * 1024,
        current_usage = 0,
        preallocated_bytes = 0,
        stats = PoolStats_zero\<rparr>"

definition count_failure :: "MemoryPool \<Rightarrow> MemoryPool" where
  "count_failure p =
     p\<lparr>stats := (stats p)\<lparr>allocation_failures := allocation_failures (stats p) + 1\<rparr>\<rparr>"

definition count_allocation :: "nat \<Rightarrow> MemoryPool \<Rightarrow> MemoryPool" where
  "count_allocation chunk_size p =
     (let u = current_usage p + chunk_size in
      p\<lparr>current_usage := u,
        stats := (stats p)\<lparr>total_allocations := total_allocations (stats p) + 1,
                            current_usage_bytes := u,
                            peak_usage_bytes := (if u > peak_usage_bytes (stats p) then u
                                                 else peak_usage_bytes (stats p))\<rparr>\<rparr>)"

text \<open>
  \<open>alloc_chunk\<close>: the result is the returned pointer (\<open>None\<close> is \<open>nullptr\<close>) or the
  exception thrown.  The fast path pops the head of the class's free list and adds the
  chunk's size to the usage; it does not read \<open>max_capacity_bytes_\<close>.  When that list is
  empty, the usage is compared with the cap before the chunk is created and again after.
\<close>

definition alloc_chunk :: "bool \<Rightarrow> nat \<Rightarrow> MemoryPool \<Rightarrow> (pool_error + Chunk option) \<times> MemoryPool" where
  "alloc_chunk sys_ok n p =
     (if n = 0 then (Inr None, p)
      else
        let chunk_size = find_suitable_size n in
        if chunk_size = 0 then (Inr None, count_failure p)
        else
          (case pool p chunk_size of
             Some (chunk # rest) \<Rightarrow>
               (Inr (Some chunk),
                count_allocation chunk_size (p\<lparr>pool := (pool p)(chunk_size \<mapsto> rest)\<rparr>))
           | _ \<Rightarrow>
               if current_usage p + chunk_size > max_capacity_bytes p
                 then (Inl MemoryPoolExhaustedError, count_failure p)
               else if \<not> sys_ok then (Inl MemoryAllocationError, count_failure p)
               else if current_usage p + chunk_size > max_capacity_bytes p
                 then (Inl MemoryPoolExhaustedError, count_failure p)
               else (Inr (Some (Chunk_new chunk_size)), count_allocation chunk_size p)))"

definition retrieve :: "Chunk option \<Rightarrow> MemoryPool \<Rightarrow> MemoryPool" where
  "retrieve ch p =
     (case ch of
        None \<Rightarrow> p
      | Some chunk \<Rightarrow>
          let chunk_size = capacity chunk in
          if chunk_size = 0 then p
          else if \<not> is_supported_size chunk_size then p
          else
            let c = Chunk_clear chunk;
                u = (if current_usage p \<ge> chunk_size then current_usage p - chunk_size else 0)
            in p\<lparr>pool := (case pool p chunk_size of
                              Some cs \<Rightarrow> (pool p)(chunk_size \<mapsto> c # cs)
                            | None \<Rightarrow> (pool p)(chunk_size \<mapsto> [c])),
                 current_usage := u,
                 stats := (stats p)\<lparr>current_usage_bytes := u,
                                     total_deallocations := total_deallocations (stats p) + 1\<rparr>\<rparr>)"

definition set_max_capacity :: "nat \<Rightarrow> MemoryPool \<Rightarrow> MemoryPool" where
  "set_max_capacity max_bytes p = p\<lparr>max_capacity_bytes := max_bytes\<rparr>"

text \<open>
  A client of the pool: it holds the chunks handed out and not yet returned, and
  returns only chunks it holds (\<open>Retrieve i\<close> gives back the \<open>i\<close>-th one; an index
  out of range is \<open>retrieve(nullptr)\<close>).
\<close>

datatype pool_op = Alloc nat bool | Retrieve nat | SetMaxCapacity nat

fun pool_step :: "pool_op \<Rightarrow> MemoryPool \<times> Chunk list \<Rightarrow> MemoryPool \<times> Chunk list" where
  "pool_step (Alloc n sys_ok) (p, held) =
     (case alloc_chunk sys_ok n p of
        (Inr (Some c), p') \<Rightarrow> (p', c # held)
      | (_, p') \<Rightarrow> (p', held))"
| "pool_step (Retrieve i) (p, held) =
     (if i < length held then (retrieve (Some (held ! i)) p, take i held @ drop (Suc i) held)
      else (retrieve None p, held))"
| "pool_step (SetMaxCapacity m) (p, held) = (set_max_capacity m p, held)"

definition run_pool :: "pool_op list \<Rightarrow> MemoryPool \<times> Chunk list \<Rightarrow> MemoryPool \<times> Chunk list" where
  "run_pool ops w = fold pool_step ops w"

text \<open>The pool as the constructor leaves it (evaluated in \<open>MemoryPool_ctor_value\<close>).\<close>

definition fresh_pool :: MemoryPool where
  "fresh_pool =
     \<lparr>pool = [4096 \<mapsto> replicate 200 (Chunk_new 4096),
              16384 \<mapsto> replicate 50 (Chunk_new 16384),
              65536 \<mapsto> replicate 20 (Chunk_new 65536),
              262144 \<mapsto> replicate 10 (Chunk_new 262144),
              1048576 \<mapsto> replicate 5 (Chunk_new 1048576),
              4194304 \<mapsto> replicate 2 (Chunk_new 4194304)],
      max_capacity_bytes = 134217728,
      current_usage = 0,
      preallocated_bytes = 19202048,
      stats = PoolStats_zero\<rparr>"

subsection \<open>BufferBase (data_buf.hpp, data_buf.cpp)\<close>

record BufferBase =
  data_buf :: "Chunk option"

datatype outcome = Returned | Threw

definition BufferBase_length :: "BufferBase \<Rightarrow> int" where
  "BufferBase_length b = (case data_buf b of Some c \<Rightarrow> int (length_c c) | None \<Rightarrow> 0)"

text \<open>
  \<open>BufferBase::pop\<close> works on the buffer and the process-wide pool; \<open>Threw\<close> is the
  \<open>std::runtime_error\<close>, returned together with the state the throw leaves behind.
\<close>

definition BufferBase_pop :: "int \<Rightarrow> BufferBase \<times> MemoryPool \<Rightarrow> outcome \<times> BufferBase \<times> MemoryPool" where
  "BufferBase_pop len bp =
     (case bp of (b, p) \<Rightarrow>
        (case data_buf b of
           None \<Rightarrow> (Returned, b, p)
         | Some c \<Rightarrow>
             if len \<le> 0 then (Returned, b, p)
             else if nat len > length_c c then (Threw, b, p)
             else
               let c' = Chunk_pop (nat len) c in
               if length_c c' = 0 then (Returned, b\<lparr>data_buf := None\<rparr>, retrieve (Some c') p)
               else (Returned, b\<lparr>data_buf := Some c'\<rparr>, p)))"

definition BufferBase_clear :: "BufferBase \<times> MemoryPool \<Rightarrow> BufferBase \<times> MemoryPool" where
  "BufferBase_clear bp =
     (case bp of (b, p) \<Rightarrow>
        (case data_buf b of
           None \<Rightarrow> (b, p)
         | Some c \<Rightarrow> (b\<lparr>data_buf := None\<rparr>, retrieve (Some c) p)))"

subsection \<open>The kernel as seen by the code\<close>

text \<open>
  A system call's result is its non-negative return value, or \<open>-1\<close> with an
  \<open>errno\<close>.  \<open>env\<close> is the list of results the kernel will deliver, in order;
  \<open>trace\<close> records the system calls made and the user callbacks invoked.  For
  \<open>read\<close> and \<open>write\<close>, \<open>Ret n\<close> says that \<open>n\<close> bytes can be transferred: the
  call returns at most the count it was given.  The \<open>errno\<close> values are those of
  Linux (\<open>errno.h\<close> is not part of the repository).
\<close>

datatype sys_result = Ret nat | Failed int

datatype action =
    SysRead int nat
  | SysWrite int nat
  | SysClose int
  | SysShutdownWr int
  | SysAccept4 int
  | SysAccept int
  | SysOpenDevNull
  | LogError
  | NewConnection int
  | ConnectedCb
  | MessageCb
  | CloseCb
  | NullDeref

record io =
  env :: "sys_result list"
  trace :: "action list"

definition EINTR :: int where "EINTR = 4"
definition EAGAIN :: int where "EAGAIN = 11"
definition EWOULDBLOCK :: int where "EWOULDBLOCK = 11"
definition ENFILE :: int where "ENFILE = 23"
definition EMFILE :: int where "EMFILE = 24"

definition clamp_count :: "nat \<Rightarrow> sys_result \<Rightarrow> sys_result" where
  "clamp_count count r = (case r of Ret n \<Rightarrow> Ret (min n count) | Failed e \<Rightarrow> Failed e)"

text \<open>
  \<open>do { r = call(...); } while (r == -1 && errno == EINTR)\<close>: the call \<open>a\<close> is
  repeated while the kernel reports an interruption.  \<open>None\<close>: the results listed in
  \<open>env\<close> end before the loop does.
\<close>

fun retry_eintr :: "action \<Rightarrow> nat \<Rightarrow> action list \<Rightarrow> sys_result list \<Rightarrow> (sys_result \<times> io) option" where
  "retry_eintr a count tr [] = None"
| "retry_eintr a count tr (r # rest) =
     (if r = Failed EINTR then retry_eintr a count (tr @ [a]) rest
      else Some (clamp_count count r, \<lparr>env = rest, trace = tr @ [a]\<rparr>))"

text \<open>\<open>a - b\<close> on \<open>size_t\<close> (64 bits), which wraps around when \<open>b > a\<close>.\<close>

definition size_sub :: "nat \<Rightarrow> nat \<Rightarrow> nat" where
  "size_sub a b = (if b \<le> a then a - b else a + 2 ^ 64 - b)"

subsection \<open>InputBuffer (data_buf.cpp)\<close>

definition DEFAULT_BUFFER_SIZE :: int where
  "DEFAULT_BUFFER_SIZE = 4096"

definition InputBuffer_adjust :: "BufferBase \<Rightarrow> BufferBase" where
  "InputBuffer_adjust b =
     (case data_buf b of
        None \<Rightarrow> b
      | Some c \<Rightarrow> if head c > 0 then b\<lparr>data_buf := Some (Chunk_adjust c)\<rparr> else b)"

definition expand_buffer :: "bool \<Rightarrow> int \<Rightarrow> Chunk \<Rightarrow> BufferBase \<times> MemoryPool \<Rightarrow> bool \<times> BufferBase \<times> MemoryPool" where
  "expand_buffer sys_ok needed_size c bp =
     (case bp of (b, p) \<Rightarrow>
        let new_size = length_c c + nat needed_size in
        (case alloc_chunk sys_ok new_size p of
           (Inl e, p') \<Rightarrow> (False, b, p')
         | (Inr None, p') \<Rightarrow> (False, b, p')
         | (Inr (Some new_buf), p') \<Rightarrow>
             (True, b\<lparr>data_buf := Some (Chunk_copy sys_ok (Some c) new_buf)\<rparr>,
              retrieve (Some c) p')))"

definition ensure_space_available :: "bool \<Rightarrow> int \<Rightarrow> BufferBase \<times> MemoryPool \<Rightarrow> bool \<times> BufferBase \<times> MemoryPool" where
  "ensure_space_available sys_ok additional_size bp =
     (case bp of (b, p) \<Rightarrow>
        if additional_size \<le> 0 then (False, b, p)
        else if additional_size > 1024 * 1024 then (False, b, p)
        else
          let additional = nat additional_size in
          (case data_buf b of
             None \<Rightarrow>
               (case alloc_chunk sys_ok (nat (max additional_size DEFAULT_BUFFER_SIZE)) p of
                  (Inl e, p') \<Rightarrow> (False, b, p')
                | (Inr None, p') \<Rightarrow> (False, b, p')
                | (Inr (Some c), p') \<Rightarrow> (True, b\<lparr>data_buf := Some c\<rparr>, p'))
           | Some c0 \<Rightarrow>
               let b1 = (if head c0 \<noteq> 0 then InputBuffer_adjust b else b);
                   c = (case data_buf b1 of Some c1 \<Rightarrow> c1 | None \<Rightarrow> c0);
                   available = size_sub (capacity c) (length_c c)
               in if available \<ge> additional then (True, b1, p)
                  else
                    let needed = additional - available in
                    if needed > 2147483647 then (False, b1, p)
                    else expand_buffer sys_ok (int needed) c (b1, p)))"

text \<open>
  \<open>read_from_fd\<close> returns the \<open>int\<close> of the source together with the buffer, the
  pool and the kernel state it leaves.
\<close>

definition read_from_fd :: "bool \<Rightarrow> int \<Rightarrow> BufferBase \<times> MemoryPool \<times> io \<Rightarrow> (int \<times> BufferBase \<times> MemoryPool \<times> io) option" where
  "read_from_fd sys_ok fd bps =
     (case bps of (b, p, s) \<Rightarrow>
        if fd < 0 then Some (-1, b, p, s)
        else
          (case ensure_space_available sys_ok DEFAULT_BUFFER_SIZE (b, p) of
             (False, b', p') \<Rightarrow> Some (-1, b', p', s)
           | (True, b', p') \<Rightarrow>
               (case data_buf b' of
                  None \<Rightarrow> Some (-1, b', p', s)
                | Some c \<Rightarrow>
                    let available = size_sub (capacity c) (length_c c) in
                    if available = 0 then Some (-1, b', p', s)
                    else
                      let to_read = min available 65536 in
                      (case retry_eintr (SysRead fd to_read) to_read (trace s) (env s) of
                         None \<Rightarrow> None
                       | Some (Ret bytes_read, s') \<Rightarrow>
                           if bytes_read > 0
                           then Some (int bytes_read,
                                      b'\<lparr>data_buf := Some (c\<lparr>length_c := length_c c + bytes_read\<rparr>)\<rparr>,
                                      p', s')
                           else Some (0, b', p', s')
                       | Some (Failed err, s') \<Rightarrow>
                           if err = EAGAIN \<or> err = EWOULDBLOCK then Some (0, b', p', s')
                           else Some (-1, b', p', s')))))"

subsection \<open>Epoll, Channel and EventLoop (Epoll.cpp, Channel.cpp, EventLoop.cpp)\<close>

text \<open>
  The kernel's interest list is a map from descriptors to the registered event mask and
  cookie (\<open>data.ptr\<close>, the channel's address \<open>ch_id\<close>).  \<open>Epoll::add\<close>,
  \<open>mod\<close> and \<open>del\<close> return \<open>false\<close> for any error of \<open>epoll_ctl\<close>:
  \<open>kernel_ok\<close> says whether the kernel accepts the call at all (no \<open>ENOMEM\<close>,
  \<open>ENOSPC\<close>, \<open>EPERM\<close>, \<open>EBADF\<close>, ...); an accepted call still fails with
  \<open>EEXIST\<close> when an added descriptor is registered already and with \<open>ENOENT\<close> when
  a modified or deleted one is not.  A failed call leaves the interest list as it was.
  The loop's registry \<open>channels\<close> holds weak references, modelled by the channel's
  address.  Channel operations are modelled on the loop's own thread, where
  \<open>Channel::update\<close> calls \<open>update_channel\<close> directly.
\<close>

definition EPOLLIN :: "32 word" where "EPOLLIN = 0x001"
definition EPOLLOUT :: "32 word" where "EPOLLOUT = 0x004"
definition EPOLLERR :: "32 word" where "EPOLLERR = 0x008"
definition EPOLLHUP :: "32 word" where "EPOLLHUP = 0x010"
definition EPOLLRDHUP :: "32 word" where "EPOLLRDHUP = 0x2000"

record Channel =
  ch_id :: nat
  fd :: int
  events :: "32 word"
  tied :: bool

definition Channel_new :: "nat \<Rightarrow> int \<Rightarrow> Channel" where
  "Channel_new a d = \<lparr>ch_id = a, fd = d, events = 0, tied = False\<rparr>"

definition Epoll_add :: "bool \<Rightarrow> Channel \<Rightarrow> (int \<rightharpoonup> 32 word \<times> nat) \<Rightarrow> bool \<times> (int \<rightharpoonup> 32 word \<times> nat)" where
  "Epoll_add kernel_ok ch ep =
     (if \<not> kernel_ok \<or> ep (fd ch) \<noteq> None then (False, ep)
      else (True, ep(fd ch \<mapsto> (events ch, ch_id ch))))"

definition Epoll_mod :: "bool \<Rightarrow> Channel \<Rightarrow> (int \<rightharpoonup> 32 word \<times> nat) \<Rightarrow> bool \<times> (int \<rightharpoonup> 32 word \<times> nat)" where
  "Epoll_mod kernel_ok ch ep =
     (if \<not> kernel_ok \<or> ep (fd ch) = None then (False, ep)
      else (True, ep(fd ch \<mapsto> (events ch, ch_id ch))))"

definition Epoll_del :: "bool \<Rightarrow> Channel \<Rightarrow> (int \<rightharpoonup> 32 word \<times> nat) \<Rightarrow> bool \<times> (int \<rightharpoonup> 32 word \<times> nat)" where
  "Epoll_del kernel_ok ch ep =
     (if \<not> kernel_ok \<or> ep (fd ch) = None then (False, ep)
      else (True, ep(fd ch := None)))"

record EventLoop =
  epoller :: "int \<rightharpoonup> 32 word \<times> nat"
  channels :: "int \<rightharpoonup> nat"

text \<open>\<open>update_channel\<close> makes one \<open>epoll_ctl\<close> call; \<open>kernel_ok\<close> is the kernel's answer to it.\<close>

definition update_channel :: "bool \<Rightarrow> Channel \<Rightarrow> EventLoop \<Rightarrow> EventLoop" where
  "update_channel kernel_ok ch l =
     (if events ch = 0
      then l\<lparr>epoller := snd (Epoll_del kernel_ok ch (epoller l)),
             channels := (channels l)(fd ch := None)\<rparr>
      else
        (case channels l (fd ch) of
           None \<Rightarrow>
             (case Epoll_add kernel_ok ch (epoller l) of
                (True, ep) \<Rightarrow> l\<lparr>epoller := ep, channels := (channels l)(fd ch \<mapsto> ch_id ch)\<rparr>
              | (False, ep) \<Rightarrow> l\<lparr>epoller := ep\<rparr>)
         | Some w \<Rightarrow> l\<lparr>epoller := snd (Epoll_mod kernel_ok ch (epoller l))\<rparr>))"

definition remove_channel :: "bool \<Rightarrow> Channel \<Rightarrow> EventLoop \<Rightarrow> EventLoop" where
  "remove_channel kernel_ok ch l =
     l\<lparr>channels := (channels l)(fd ch := None),
       epoller := snd (Epoll_del kernel_ok ch (epoller l))\<rparr>"

definition Channel_enable_read :: "bool \<Rightarrow> Channel \<times> EventLoop \<Rightarrow> Channel \<times> EventLoop" where
  "Channel_enable_read kernel_ok cl =
     (case cl of (ch, l) \<Rightarrow>
        let ch' = ch\<lparr>events := events ch OR EPOLLIN OR EPOLLRDHUP\<rparr>
        in (ch', update_channel kernel_ok ch' l))"

definition Channel_enable_write :: "bool \<Rightarrow> Channel \<times> EventLoop \<Rightarrow> Channel \<times> EventLoop" where
  "Channel_enable_write kernel_ok cl =
     (case cl of (ch, l) \<Rightarrow>
        let ch' = ch\<lparr>events := events ch OR EPOLLOUT\<rparr>
        in (ch', update_channel kernel_ok ch' l))"

definition Channel_disable_write :: "bool \<Rightarrow> Channel \<times> EventLoop \<Rightarrow> Channel \<times> EventLoop" where
  "Channel_disable_write kernel_ok cl =
     (case cl of (ch, l) \<Rightarrow>
        let ch' = ch\<lparr>events := events ch AND NOT EPOLLOUT\<rparr>
        in (ch', update_channel kernel_ok ch' l))"

definition Channel_disable_all :: "bool \<Rightarrow> Channel \<times> EventLoop \<Rightarrow> Channel \<times> EventLoop" where
  "Channel_disable_all kernel_ok cl =
     (case cl of (ch, l) \<Rightarrow>
        let ch' = ch\<lparr>events := 0\<rparr>
        in (ch', update_channel kernel_ok ch' l))"

subsection \<open>Invariants of the pool and its client\<close>

text \<open>
  Every chunk on the free list of key \<open>k\<close> has capacity \<open>k\<close>; every chunk held by
  the client has the capacity of a size class; the usage counter is the sum of the held
  capacities.
\<close>

definition pool_wf :: "MemoryPool \<Rightarrow> bool" where
  "pool_wf p = (\<forall>k cs. pool p k = Some cs \<longrightarrow> (\<forall>c \<in> set cs. capacity c = k))"

definition held_ok :: "Chunk list \<Rightarrow> bool" where
  "held_ok held = (\<forall>c \<in> set held. capacity c \<in> set MEM_SIZES)"

definition accounted :: "MemoryPool \<times> Chunk list \<Rightarrow> bool" where
  "accounted w = (pool_wf (fst w) \<and> held_ok (snd w) \<and>
                  current_usage (fst w) = sum_list (map capacity (snd w)))"

subsection \<open>Acceptor::do_accept (Acceptor.cpp)\<close>

record Acceptor =
  listen_fd :: int
  idle_fd :: int

text \<open>
  The accept loop.  Each \<open>accept4\<close>, the rescue's \<open>accept\<close> and its \<open>open\<close> take
  their result from \<open>env\<close>; the loop has not returned (\<open>None\<close>) when \<open>env\<close> ends
  first.  \<open>io_loop_ok\<close> says whether \<open>server_->get_next_loop()\<close> is non-null;
  \<open>NewConnection connfd\<close> stands for creating the connection, scheduling
  \<open>connect_established\<close> on its loop and registering it with the server.
\<close>

fun do_accept_loop :: "bool \<Rightarrow> int \<Rightarrow> int \<Rightarrow> action list \<Rightarrow> sys_result list \<Rightarrow> (Acceptor \<times> io) option" where
  "do_accept_loop io_loop_ok lfd ifd tr [] = None"
| "do_accept_loop io_loop_ok lfd ifd tr (Ret connfd # rest) =
     (if \<not> io_loop_ok
      then do_accept_loop io_loop_ok lfd ifd (tr @ [SysAccept4 lfd, SysClose (int connfd)]) rest
      else do_accept_loop io_loop_ok lfd ifd (tr @ [SysAccept4 lfd, NewConnection (int connfd)]) rest)"
| "do_accept_loop io_loop_ok lfd ifd tr (Failed err # rest) =
     (if err = EINTR then do_accept_loop io_loop_ok lfd ifd (tr @ [SysAccept4 lfd]) rest
      else if err = EAGAIN \<or> err = EWOULDBLOCK
        then Some (\<lparr>listen_fd = lfd, idle_fd = ifd\<rparr>, \<lparr>env = rest, trace = tr @ [SysAccept4 lfd]\<rparr>)
      else if err = EMFILE \<or> err = ENFILE
        then (case rest of
                tmp # opened # rest' \<Rightarrow>
                  do_accept_loop io_loop_ok lfd
                    (case opened of Ret n \<Rightarrow> int n | Failed e \<Rightarrow> -1)
                    (tr @ [SysAccept4 lfd, LogError, SysClose ifd, SysAccept lfd] @
                       (case tmp of Ret t \<Rightarrow> [SysClose (int t)] | Failed e \<Rightarrow> []) @
                       [SysOpenDevNull])
                    rest'
              | _ \<Rightarrow> None)
      else Some (\<lparr>listen_fd = lfd, idle_fd = ifd\<rparr>,
                 \<lparr>env = rest, trace = tr @ [SysAccept4 lfd, LogError]\<rparr>))"

definition do_accept :: "bool \<Rightarrow> Acceptor \<times> io \<Rightarrow> (Acceptor \<times> io) option" where
  "do_accept io_loop_ok as =
     (case as of (a, s) \<Rightarrow> do_accept_loop io_loop_ok (listen_fd a) (idle_fd a) (trace s) (env s))"

subsection \<open>ConnectionTimeoutManager (ConnectionTimeoutManager.hpp, .cpp)\<close>

text \<open>
  Entries are shared objects: the slots and the connection table hold references
  (\<open>nat\<close> addresses, \<open>None\<close> for a null \<open>shared_ptr\<close>) into \<open>entry_store\<close>.  An
  entry's \<open>conn\<close> is a reference to the connection object; \<open>conn_fd\<close> gives what
  \<open>fd()\<close> returns on each connection now (\<open>-1\<close> once the connection has closed its
  descriptor).  Time points are in milliseconds.
\<close>

record ConnectionEntry =
  conn :: "nat option"
  slot_position :: int
  remaining_ticks :: int
  last_activity_time :: int

record ConnectionTimeoutManager =
  idle_timeout_ms :: int
  wheel_size :: int
  tick_interval_ms :: int
  time_wheel :: "nat option list list"
  current_slot :: int
  entry_store :: "nat \<Rightarrow> ConnectionEntry"
  conn_fd :: "nat \<Rightarrow> int"
  connections :: "int \<rightharpoonup> nat"
  total_connections :: nat
  timeout_callback :: bool

text \<open>
  The scan of one slot in \<open>process_timeout_connections\<close>: the entries kept, the
  entries collected in \<open>expired_entries\<close>, and the store after the decrements.
\<close>

fun process_slot :: "int \<Rightarrow> int \<Rightarrow> nat option list \<Rightarrow> (nat \<Rightarrow> ConnectionEntry) \<Rightarrow>
    nat option list \<times> nat list \<times> (nat \<Rightarrow> ConnectionEntry)" where
  "process_slot now timeout [] st = ([], [], st)"
| "process_slot now timeout (None # rest) st = process_slot now timeout rest st"
| "process_slot now timeout (Some e # rest) st =
     (if remaining_ticks (st e) > 0 then
        (case process_slot now timeout rest
                (st(e := (st e)\<lparr>remaining_ticks := remaining_ticks (st e) - 1\<rparr>)) of
           (kept, expired, st') \<Rightarrow> (Some e # kept, expired, st'))
      else if now - last_activity_time (st e) \<ge> timeout then
        (case process_slot now timeout rest st of
           (kept, expired, st') \<Rightarrow> (kept, e # expired, st'))
      else
        (case process_slot now timeout rest st of
           (kept, expired, st') \<Rightarrow> (Some e # kept, expired, st')))"

text \<open>
  The second loop: for every expired entry with a connection, \<open>entry->conn->fd()\<close> is
  erased from the connection table, the counter (an atomic \<open>size_t\<close>) is decremented,
  and the timeout callback, if set, is called with the connection (what the callback
  itself does is outside the model); the list collects the connections it was called
  with.
\<close>

fun handle_expired :: "nat list \<Rightarrow> ConnectionTimeoutManager \<Rightarrow> nat list \<Rightarrow> ConnectionTimeoutManager \<times> nat list" where
  "handle_expired [] m called = (m, called)"
| "handle_expired (e # rest) m called =
     (case conn (entry_store m e) of
        None \<Rightarrow> handle_expired rest m called
      | Some c \<Rightarrow>
          handle_expired rest
            (m\<lparr>connections := (connections m)(conn_fd m c := None),
               total_connections := (total_connections m + 2 ^ 64 - 1) mod 2 ^ 64\<rparr>)
            (if timeout_callback m then called @ [c] else called))"

text \<open>
  \<open>time_wheel_[current_slot_]\<close> outside the wheel is undefined behaviour in the
  source; the model leaves the manager unchanged there.
\<close>

definition process_timeout_connections :: "int \<Rightarrow> ConnectionTimeoutManager \<Rightarrow> ConnectionTimeoutManager \<times> nat list" where
  "process_timeout_connections now m =
     (if current_slot m < 0 \<or> nat (current_slot m) \<ge> length (time_wheel m) then (m, [])
      else
        (case process_slot now (idle_timeout_ms m) (time_wheel m ! nat (current_slot m))
                (entry_store m) of
           (kept, expired, st') \<Rightarrow>
             handle_expired expired
               (m\<lparr>time_wheel := (time_wheel m)[nat (current_slot m) := kept],
                  entry_store := st'\<rparr>) []))"

text \<open>One iteration of \<open>time_wheel_loop\<close>, without the sleep.\<close>

definition time_wheel_tick :: "int \<Rightarrow> ConnectionTimeoutManager \<Rightarrow> ConnectionTimeoutManager \<times> nat list" where
  "time_wheel_tick now m =
     (case process_timeout_connections now m of
        (m', called) \<Rightarrow> (m'\<lparr>current_slot := (current_slot m' + 1) mod wheel_size m'\<rparr>, called))"

definition slot_refs :: "nat option list \<Rightarrow> nat list" where
  "slot_refs slot = List.map_filter id slot"

subsection \<open>EventLoopThreadPool and TcpServer::get_next_loop\<close>

text \<open>
  \<open>hardware_concurrency\<close> is what \<open>std::thread::hardware_concurrency()\<close> returns on the
  machine (an \<open>unsigned\<close>, converted to the \<open>int\<close> member).  A worker loop is named by
  its index in \<open>threads\<close>.
\<close>

datatype loop_ref = BaseLoop | WorkerLoop nat

definition int_of_unsigned :: "nat \<Rightarrow> int" where
  "int_of_unsigned u = (let v = u mod 2 ^ 32 in if v < 2 ^ 31 then int v else int v - 2 ^ 32)"

record EventLoopThreadPool =
  thread_count :: int
  threads :: "nat list"
  next_index :: nat
  pool_started :: bool

definition EventLoopThreadPool_ctor :: "nat \<Rightarrow> int \<Rightarrow> EventLoopThreadPool" where
  "EventLoopThreadPool_ctor hardware_concurrency tc =
     (let n = (if tc > 0 then tc else int_of_unsigned hardware_concurrency)
      in \<lparr>thread_count = (if n < 0 then 1 else n), threads = [], next_index = 0,
          pool_started = False\<rparr>)"

definition EventLoopThreadPool_start :: "EventLoopThreadPool \<Rightarrow> EventLoopThreadPool" where
  "EventLoopThreadPool_start tp =
     (if pool_started tp then tp
      else if thread_count tp \<le> 0 then tp\<lparr>pool_started := True\<rparr>
      else tp\<lparr>pool_started := True,
              threads := threads tp @ [0 ..< nat (thread_count tp)]\<rparr>)"

definition EventLoopThreadPool_get_next_loop :: "EventLoopThreadPool \<Rightarrow> loop_ref option \<times> EventLoopThreadPool" where
  "EventLoopThreadPool_get_next_loop tp =
     (if threads tp = [] then (None, tp)
      else (Some (WorkerLoop (threads tp ! (next_index tp mod length (threads tp)))),
            tp\<lparr>next_index := (next_index tp + 1) mod 2 ^ 64\<rparr>))"

datatype ctor_error = InvalidArgument

record TcpServer =
  thread_pool :: "EventLoopThreadPool option"
  port :: nat
  io_thread_count :: int
  started :: bool

definition TcpServer_ctor :: "nat \<Rightarrow> bool \<Rightarrow> nat \<Rightarrow> int \<Rightarrow> ctor_error + TcpServer" where
  "TcpServer_ctor hardware_concurrency base_loop_null prt io_threads =
     (if base_loop_null then Inl InvalidArgument
      else if prt = 0 then Inl InvalidArgument
      else Inr \<lparr>thread_pool = Some (EventLoopThreadPool_ctor hardware_concurrency (max 0 io_threads)),
                port = prt, io_thread_count = max 0 io_threads, started = False\<rparr>)"

text \<open>\<open>TcpServer::start\<close>, as far as the loop pool is concerned.\<close>

definition TcpServer_start :: "TcpServer \<Rightarrow> TcpServer" where
  "TcpServer_start srv =
     (if started srv then srv
      else srv\<lparr>started := True,
               thread_pool := map_option EventLoopThreadPool_start (thread_pool srv)\<rparr>)"

definition TcpServer_get_next_loop :: "TcpServer \<Rightarrow> loop_ref \<times> TcpServer" where
  "TcpServer_get_next_loop srv =
     (case thread_pool srv of
        None \<Rightarrow> (BaseLoop, srv)
      | Some tp \<Rightarrow>
          if length (threads tp) = 0 then (BaseLoop, srv)
          else
            (case EventLoopThreadPool_get_next_loop tp of
               (None, tp') \<Rightarrow> (BaseLoop, srv\<lparr>thread_pool := Some tp'\<rparr>)
             | (Some l, tp') \<Rightarrow> (l, srv\<lparr>thread_pool := Some tp'\<rparr>)))"

text \<open>
  What the tick is to do with the entries \<open>es\<close> of the current slot, in the spec's
  words: an entry with ticks left is kept and decremented; of the others, one idle for at
  least the timeout is expired and removed, and the rest are kept.
\<close>

definition spec_kept :: "int \<Rightarrow> int \<Rightarrow> (nat \<Rightarrow> ConnectionEntry) \<Rightarrow> nat list \<Rightarrow> nat list" where
  "spec_kept now T st es =
     filter (\<lambda>e. remaining_ticks (st e) > 0 \<or> now - last_activity_time (st e) < T) es"

definition spec_expired :: "int \<Rightarrow> int \<Rightarrow> (nat \<Rightarrow> ConnectionEntry) \<Rightarrow> nat list \<Rightarrow> nat list" where
  "spec_expired now T st es =
     filter (\<lambda>e. \<not> remaining_ticks (st e) > 0 \<and> now - last_activity_time (st e) \<ge> T) es"

definition spec_decremented :: "(nat \<Rightarrow> ConnectionEntry) \<Rightarrow> nat list \<Rightarrow> nat \<Rightarrow> ConnectionEntry" where
  "spec_decremented st es =
     (\<lambda>e. if e \<in> set es \<and> remaining_ticks (st e) > 0
          then (st e)\<lparr>remaining_ticks := remaining_ticks (st e) - 1\<rparr> else st e)"

text \<open>
  A small wheel for concrete runs: three slots; three entries and a null reference in
  slot 0; connection 12 has closed its descriptor already.
\<close>

definition example_wheel :: ConnectionTimeoutManager where
  "example_wheel =
     \<lparr>idle_timeout_ms = 5000, wheel_size = 3, tick_interval_ms = 1000,
      time_wheel = [[Some 1, None, Some 2, Some 3], [], []],
      current_slot = 0,
      entry_store =
        (\<lambda>e. \<lparr>conn = None, slot_position = 0, remaining_ticks = 0, last_activity_time = 0\<rparr>)
          (1 := \<lparr>conn = Some 11, slot_position = 0, remaining_ticks = 2, last_activity_time = 9000\<rparr>,
           2 := \<lparr>conn = Some 12, slot_position = 0, remaining_ticks = 0, last_activity_time = 1000\<rparr>,
           3 := \<lparr>conn = Some 13, slot_position = 0, remaining_ticks = 0, last_activity_time = 8000\<rparr>),
      conn_fd = (\<lambda>c. - 1)(11 := 21, 13 := 23),
      connections = [21 \<mapsto> 1, 22 \<mapsto> 2, 23 \<mapsto> 3],
      total_connections = 3,
      timeout_callback = True\<rparr>"

subsection \<open>OutputBuffer (data_buf.cpp)\<close>

definition OutputBuffer_ensure_capacity :: "bool \<Rightarrow> int \<Rightarrow> BufferBase \<times> MemoryPool \<Rightarrow> bool \<times> BufferBase \<times> MemoryPool" where
  "OutputBuffer_ensure_capacity sys_ok additional_size bp =
     (case bp of (b, p) \<Rightarrow>
        if additional_size \<le> 0 then (False, b, p)
        else if additional_size > 1024 * 1024 then (False, b, p)
        else
          let additional = nat additional_size in
          (case data_buf b of
             None \<Rightarrow>
               (case alloc_chunk sys_ok (nat (max additional_size DEFAULT_BUFFER_SIZE)) p of
                  (Inl e, p') \<Rightarrow> (False, b, p')
                | (Inr None, p') \<Rightarrow> (False, b, p')
                | (Inr (Some c), p') \<Rightarrow> (True, b\<lparr>data_buf := Some c\<rparr>, p'))
           | Some c0 \<Rightarrow>
               let c = (if head c0 \<noteq> 0 then Chunk_adjust c0 else c0);
                   b1 = b\<lparr>data_buf := Some c\<rparr>;
                   available = size_sub (capacity c) (length_c c)
               in if available \<ge> additional then (True, b1, p)
                  else if length_c c + additional \<ge> 2 ^ 64 then (False, b1, p)
                  else
                    let new_size = length_c c + additional in
                    if new_size > 1024 * 1024 then (False, b1, p)
                    else
                      (case alloc_chunk sys_ok new_size p of
                         (Inl e, p') \<Rightarrow> (False, b1, p')
                       | (Inr None, p') \<Rightarrow> (False, b1, p')
                       | (Inr (Some new_buf), p') \<Rightarrow>
                           (True, b1\<lparr>data_buf := Some (Chunk_copy sys_ok (Some c) new_buf)\<rparr>,
                            retrieve (Some c) p'))))"

text \<open>\<open>data_null\<close>: the \<open>data\<close> pointer is null.  The result is the \<open>int\<close> returned.\<close>

definition write_to_buf :: "bool \<Rightarrow> bool \<Rightarrow> int \<Rightarrow> BufferBase \<times> MemoryPool \<Rightarrow> int \<times> BufferBase \<times> MemoryPool" where
  "write_to_buf sys_ok data_null len bp =
     (case bp of (b, p) \<Rightarrow>
        if data_null then (-1, b, p)
        else if len \<le> 0 then (0, b, p)
        else if len > 1024 * 1024 then (-1, b, p)
        else
          (case OutputBuffer_ensure_capacity sys_ok len (b, p) of
             (False, b', p') \<Rightarrow> (-1, b', p')
           | (True, b', p') \<Rightarrow>
               (case data_buf b' of
                  None \<Rightarrow> (-1, b', p')
                | Some c \<Rightarrow> (0, b'\<lparr>data_buf := Some (c\<lparr>length_c := length_c c + nat len\<rparr>)\<rparr>, p'))))"

definition write_to_fd :: "int \<Rightarrow> BufferBase \<times> MemoryPool \<times> io \<Rightarrow> (int \<times> BufferBase \<times> MemoryPool \<times> io) option" where
  "write_to_fd d bps =
     (case bps of (b, p, s) \<Rightarrow>
        if d < 0 then Some (-1, b, p, s)
        else
          (case data_buf b of
             None \<Rightarrow> Some (0, b, p, s)
           | Some c \<Rightarrow>
               if length_c c = 0 then Some (0, b, p, s)
               else
                 (case retry_eintr (SysWrite d (length_c c)) (length_c c) (trace s) (env s) of
                    None \<Rightarrow> None
                  | Some (Ret bytes_written, s') \<Rightarrow>
                      if bytes_written > 0 then
                        (case BufferBase_pop (int bytes_written) (b, p) of
                           (Threw, b', p') \<Rightarrow> Some (-1, b', p', s')
                         | (Returned, b', p') \<Rightarrow> Some (int bytes_written, b', p', s'))
                      else Some (0, b, p, s')
                  | Some (Failed err, s') \<Rightarrow>
                      if err = EAGAIN \<or> err = EWOULDBLOCK then Some (0, b, p, s')
                      else Some (-1, b, p, s'))))"

subsection \<open>TcpConnection (TcpConnection.hpp, TcpConnection.cpp)\<close>

datatype State = kConnecting | kConnected | kDisconnecting | kDisconnected

text \<open>A callback member is \<open>True\<close> when a callback is set; calling it is recorded in the trace.\<close>

record TcpConnection =
  connfd :: int
  channel :: "Channel option"
  input_buf :: BufferBase
  output_buf :: BufferBase
  connected_cb :: bool
  message_cb :: bool
  close_cb :: bool
  state :: State

datatype Functor = FSendInLoop nat | FShutdownInLoop

text \<open>
  A connection in its surroundings: the process-wide pool, its worker loop with the
  functors queued for it, the kernel, whether \<open>operator new\<close> succeeds, and the next
  free address for a channel.  \<open>w_ctl_ok n\<close> says whether the kernel accepts the
  \<open>n\<close>-th \<open>epoll_ctl\<close> call made on the loop; \<open>w_ctl_calls\<close> counts the calls made.
\<close>

record world =
  w_conn :: TcpConnection
  w_pool :: MemoryPool
  w_loop :: EventLoop
  w_io :: io
  w_new_ok :: bool
  w_next_addr :: nat
  w_pending :: "Functor list"
  w_ctl_ok :: "nat \<Rightarrow> bool"
  w_ctl_calls :: nat

definition log_action :: "action \<Rightarrow> world \<Rightarrow> world" where
  "log_action a w = w\<lparr>w_io := (w_io w)\<lparr>trace := trace (w_io w) @ [a]\<rparr>\<rparr>"

text \<open>\<open>channel_->f()\<close>; through a null \<open>channel_\<close> it is a null dereference.\<close>

definition on_channel :: "(bool \<Rightarrow> Channel \<times> EventLoop \<Rightarrow> Channel \<times> EventLoop) \<Rightarrow> world \<Rightarrow> world" where
  "on_channel f w =
     (case channel (w_conn w) of
        None \<Rightarrow> log_action NullDeref w
      | Some ch \<Rightarrow>
          (case f (w_ctl_ok w (w_ctl_calls w)) (ch, w_loop w) of
             (ch', l') \<Rightarrow>
               w\<lparr>w_conn := (w_conn w)\<lparr>channel := Some ch'\<rparr>, w_loop := l',
                 w_ctl_calls := w_ctl_calls w + 1\<rparr>))"

text \<open>
  The connection as the acceptor leaves it: constructed on the accepted descriptor, with
  the server's three callback wrappers installed.
\<close>

definition TcpConnection_new :: "int \<Rightarrow> TcpConnection" where
  "TcpConnection_new d =
     \<lparr>connfd = d, channel = None, input_buf = \<lparr>data_buf = None\<rparr>,
      output_buf = \<lparr>data_buf = None\<rparr>, connected_cb = True, message_cb = True,
      close_cb = True, state = kConnecting\<rparr>"

definition connect_established :: "world \<Rightarrow> world" where
  "connect_established w =
     (case Channel_enable_read (w_ctl_ok w (w_ctl_calls w))
             (Channel_new (w_next_addr w) (connfd (w_conn w)), w_loop w) of
        (ch, l) \<Rightarrow>
          let w1 = w\<lparr>w_conn := (w_conn w)\<lparr>channel := Some (ch\<lparr>tied := True\<rparr>),
                                         state := kConnected\<rparr>,
                    w_loop := l, w_next_addr := w_next_addr w + 1,
                    w_ctl_calls := w_ctl_calls w + 1\<rparr>
          in if connected_cb (w_conn w1) then log_action ConnectedCb w1 else w1)"

definition handle_close :: "world \<Rightarrow> world" where
  "handle_close w =
     (if state (w_conn w) \<noteq> kConnected then w
      else
        let w1 = w\<lparr>w_conn := (w_conn w)\<lparr>state := kDisconnected\<rparr>\<rparr>;
            w2 = (case channel (w_conn w1) of
                    None \<Rightarrow> w1
                  | Some ch \<Rightarrow>
                      w1\<lparr>w_conn := (w_conn w1)\<lparr>channel := None\<rparr>,
                         w_loop := snd (Channel_disable_all (w_ctl_ok w1 (w_ctl_calls w1))
                                          (ch, w_loop w1)),
                         w_ctl_calls := w_ctl_calls w1 + 1\<rparr>);
            w3 = (if close_cb (w_conn w2) then log_action CloseCb w2 else w2);
            w4 = log_action (SysClose (connfd (w_conn w3))) w3
        in w4\<lparr>w_conn := (w_conn w4)\<lparr>connfd := -1\<rparr>\<rparr>)"

definition handle_error :: "world \<Rightarrow> world" where
  "handle_error w = handle_close w"

definition handle_read :: "world \<Rightarrow> world option" where
  "handle_read w =
     (case read_from_fd (w_new_ok w) (connfd (w_conn w))
             (input_buf (w_conn w), w_pool w, w_io w) of
        None \<Rightarrow> None
      | Some (n, b, p, s) \<Rightarrow>
          let w1 = w\<lparr>w_conn := (w_conn w)\<lparr>input_buf := b\<rparr>, w_pool := p, w_io := s\<rparr> in
          if n > 0 then Some (if message_cb (w_conn w1) then log_action MessageCb w1 else w1)
          else if n = 0 then Some (handle_close w1)
          else Some (handle_error w1))"

definition handle_write :: "world \<Rightarrow> world option" where
  "handle_write w =
     (case write_to_fd (connfd (w_conn w)) (output_buf (w_conn w), w_pool w, w_io w) of
        None \<Rightarrow> None
      | Some (n, b, p, s) \<Rightarrow>
          let w1 = w\<lparr>w_conn := (w_conn w)\<lparr>output_buf := b\<rparr>, w_pool := p, w_io := s\<rparr> in
          if n < 0 then Some (handle_error w1)
          else if BufferBase_length (output_buf (w_conn w1)) = 0 then
            let w2 = on_channel Channel_disable_write w1 in
            Some (if state (w_conn w2) = kDisconnecting
                  then log_action (SysShutdownWr (connfd (w_conn w2))) w2 else w2)
          else Some w1)"

definition handle_event :: "32 word \<Rightarrow> world \<Rightarrow> world option" where
  "handle_event revents w =
     (if revents AND (EPOLLERR OR EPOLLHUP) \<noteq> 0 then Some (handle_error w)
      else if revents AND EPOLLRDHUP \<noteq> 0 then Some (handle_close w)
      else
        (case (if revents AND EPOLLIN \<noteq> 0 then handle_read w else Some w) of
           None \<Rightarrow> None
         | Some w1 \<Rightarrow> if revents AND EPOLLOUT \<noteq> 0 then handle_write w1 else Some w1))"

text \<open>The implicit conversion of a \<open>size_t\<close> to the \<open>int\<close> parameter of \<open>write_to_buf\<close>.\<close>

definition int_of_size_t :: "nat \<Rightarrow> int" where
  "int_of_size_t n = (let v = n mod 2 ^ 32 in if v < 2 ^ 31 then int v else int v - 2 ^ 32)"

text \<open>
  The second half of \<open>sendInLoop\<close>, after \<open>n\<close> bytes went out directly: the tail is
  appended to the output buffer (the value \<open>write_to_buf\<close> returns is not looked at) and
  the write event is enabled.
\<close>

definition send_tail :: "nat \<Rightarrow> nat \<Rightarrow> world \<Rightarrow> world" where
  "send_tail n len w =
     (if n < len then
        (case write_to_buf (w_new_ok w) False (int_of_size_t (len - n))
                (output_buf (w_conn w), w_pool w) of
           (r, b, p) \<Rightarrow>
             on_channel Channel_enable_write
               (w\<lparr>w_conn := (w_conn w)\<lparr>output_buf := b\<rparr>, w_pool := p\<rparr>))
      else w)"

definition sendInLoop :: "nat \<Rightarrow> world \<Rightarrow> world option" where
  "sendInLoop len w =
     (if state (w_conn w) \<noteq> kConnected then Some w
      else if BufferBase_length (output_buf (w_conn w)) = 0 then
        (case env (w_io w) of
           [] \<Rightarrow> None
         | r # rest \<Rightarrow>
             let w1 = w\<lparr>w_io := \<lparr>env = rest,
                                  trace = trace (w_io w) @ [SysWrite (connfd (w_conn w)) len]\<rparr>\<rparr>
             in (case clamp_count len r of
                   Failed err \<Rightarrow>
                     if err \<noteq> EAGAIN then Some (handle_error w1) else Some (send_tail 0 len w1)
                 | Ret n \<Rightarrow> Some (send_tail n len w1)))
      else Some (send_tail 0 len w))"

text \<open>\<open>send\<close> and \<open>shutdown\<close>, called on the loop's thread or on another one.\<close>

definition send :: "nat \<Rightarrow> bool \<Rightarrow> world \<Rightarrow> (bool \<times> world) option" where
  "send len in_loop_thread w =
     (if state (w_conn w) \<noteq> kConnected then Some (False, w)
      else if in_loop_thread then map_option (Pair True) (sendInLoop len w)
      else Some (True, w\<lparr>w_pending := w_pending w @ [FSendInLoop len]\<rparr>))"

definition shutdownInLoop :: "world \<Rightarrow> world" where
  "shutdownInLoop w =
     (if state (w_conn w) \<noteq> kConnected then w
      else
        let w1 = w\<lparr>w_conn := (w_conn w)\<lparr>state := kDisconnecting\<rparr>\<rparr> in
        if BufferBase_length (output_buf (w_conn w1)) = 0
        then log_action (SysShutdownWr (connfd (w_conn w1))) w1 else w1)"

definition shutdown :: "bool \<Rightarrow> world \<Rightarrow> world" where
  "shutdown in_loop_thread w =
     (if state (w_conn w) = kConnected then
        (if in_loop_thread then shutdownInLoop w
         else w\<lparr>w_pending := w_pending w @ [FShutdownInLoop]\<rparr>)
      else w)"

fun run_functors :: "Functor list \<Rightarrow> world \<Rightarrow> world option" where
  "run_functors [] w = Some w"
| "run_functors (FSendInLoop len # fs) w =
     (case sendInLoop len w of None \<Rightarrow> None | Some w' \<Rightarrow> run_functors fs w')"
| "run_functors (FShutdownInLoop # fs) w = run_functors fs (shutdownInLoop w)"

definition do_pending_functors :: "world \<Rightarrow> world option" where
  "do_pending_functors w = run_functors (w_pending w) (w\<lparr>w_pending := []\<rparr>)"

text \<open>
  What can happen to an established connection: the loop delivers an event, the
  application sends or shuts down from some thread, the loop runs the queued functors,
  the message callback consumes input.  \<open>connect_established\<close> is not among them: the
  acceptor schedules it once, when it creates the connection.
\<close>

datatype conn_op =
    HandleEvent "32 word"
  | Send nat bool
  | Shutdown bool
  | DoPendingFunctors
  | PopInput int

fun conn_step :: "conn_op \<Rightarrow> world \<Rightarrow> world option" where
  "conn_step (HandleEvent revents) w = handle_event revents w"
| "conn_step (Send len in_loop_thread) w = map_option snd (send len in_loop_thread w)"
| "conn_step (Shutdown in_loop_thread) w = Some (shutdown in_loop_thread w)"
| "conn_step DoPendingFunctors w = do_pending_functors w"
| "conn_step (PopInput n) w =
     (case BufferBase_pop n (input_buf (w_conn w), w_pool w) of
        (r, b, p) \<Rightarrow> Some (w\<lparr>w_conn := (w_conn w)\<lparr>input_buf := b\<rparr>, w_pool := p\<rparr>))"

text \<open>
  A run of operations; \<open>None\<close> when a system call's retry loop has not returned within
  the results listed in \<open>env\<close>.
\<close>

fun run_conn :: "conn_op list \<Rightarrow> world \<Rightarrow> world option" where
  "run_conn [] w = Some w"
| "run_conn (opn # ops) w =
     (case conn_step opn w of None \<Rightarrow> None | Some w' \<Rightarrow> run_conn ops w')"

definition close_cb_calls :: "world \<Rightarrow> nat" where
  "close_cb_calls w = length (filter (\<lambda>a. a = CloseCb) (trace (w_io w)))"

fun is_SysClose :: "action \<Rightarrow> bool" where
  "is_SysClose (SysClose d) = True"
| "is_SysClose a = False"

definition fd_closes :: "world \<Rightarrow> nat" where
  "fd_closes w = length (filter is_SysClose (trace (w_io w)))"

text \<open>
  A connection the acceptor has just created on descriptor 5, before
  \<open>connect_established\<close>, on a kernel that accepts every \<open>epoll_ctl\<close> call.
\<close>

definition fresh_world :: "sys_result list \<Rightarrow> world" where
  "fresh_world results =
     \<lparr>w_conn = TcpConnection_new 5,
      w_pool = fresh_pool,
      w_loop = \<lparr>epoller = Map.empty, channels = Map.empty\<rparr>,
      w_io = \<lparr>env = results, trace = []\<rparr>,
      w_new_ok = True,
      w_next_addr = 1,
      w_pending = [],
      w_ctl_ok = (\<lambda>n. True),
      w_ctl_calls = 0\<rparr>"

text \<open>
  What one operation may do to the state atom and the two close counters: nothing; move
  Connected to Disconnecting; or move Connected to Disconnected, with the close callback
  called at most once and the descriptor closed once.
\<close>

definition step_ok :: "world \<Rightarrow> world \<Rightarrow> bool" where
  "step_ok w w' =
     (state (w_conn w') = state (w_conn w) \<and> close_cb_calls w' = close_cb_calls w \<and>
        fd_closes w' = fd_closes w \<or>
      state (w_conn w) = kConnected \<and> state (w_conn w') = kDisconnecting \<and>
        close_cb_calls w' = close_cb_calls w \<and> fd_closes w' = fd_closes w \<or>
      state (w_conn w) = kConnected \<and> state (w_conn w') = kDisconnected \<and>
        close_cb_calls w' \<le> close_cb_calls w + 1 \<and> fd_closes w' = fd_closes w + 1)"

fun rank :: "State \<Rightarrow> nat" where
  "rank kConnecting = 0"
| "rank kConnected = 1"
| "rank kDisconnecting = 2"
| "rank kDisconnected = 3"

text \<open>The edges the spec lists, and those with the direct close of a connected connection.\<close>

definition listed_edges :: "(State \<times> State) set" where
  "listed_edges =
     {(kConnecting, kConnected), (kConnected, kDisconnecting),
      (kDisconnecting, kDisconnected), (kConnecting, kDisconnected)}"

definition amended_edges :: "(State \<times> State) set" where
  "amended_edges = insert (kConnected, kDisconnected) listed_edges"

section \<open>Theorems\<close>

subsection \<open>Helper facts about the pool\<close>

lemma MemoryPool_ctor_value: "MemoryPool_ctor True = Inr fresh_pool"
  by (simp add: MemoryPool_ctor_def initialize_pool_def MEM_SIZES_def fresh_pool_def
      preallocate_chunks_def fun_upd_twist)

lemma first_fit_mem: "first_fit ss n \<noteq> 0 \<Longrightarrow> first_fit ss n \<in> set ss"
  by (induction ss) auto

lemma find_suitable_size_mem: "find_suitable_size n \<noteq> 0 \<Longrightarrow> find_suitable_size n \<in> set MEM_SIZES"
  by (simp add: find_suitable_size_def first_fit_mem)

lemma MEM_SIZES_pos: "s \<in> set MEM_SIZES \<Longrightarrow> 0 < s"
  by (auto simp: MEM_SIZES_def)

lemma pool_wf_upd:
  "pool_wf p \<Longrightarrow> \<forall>c \<in> set cs. capacity c = k \<Longrightarrow> pool_wf (p\<lparr>pool := (pool p)(k \<mapsto> cs)\<rparr>)"
  by (simp add: pool_wf_def)

lemma pool_wf_lookup: "pool_wf p \<Longrightarrow> pool p k = Some cs \<Longrightarrow> c \<in> set cs \<Longrightarrow> capacity c = k"
  by (auto simp: pool_wf_def)

lemma pool_wf_count_failure [simp]: "pool_wf (count_failure p) = pool_wf p"
  by (simp add: pool_wf_def count_failure_def)

lemma pool_wf_count_allocation [simp]: "pool_wf (count_allocation s p) = pool_wf p"
  by (simp add: pool_wf_def count_allocation_def Let_def)

lemma usage_count_failure [simp]: "current_usage (count_failure p) = current_usage p"
  by (simp add: count_failure_def)

lemma usage_count_allocation [simp]: "current_usage (count_allocation s p) = current_usage p + s"
  by (simp add: count_allocation_def Let_def)

lemma alloc_chunk_success:
  assumes wf: "pool_wf p" and a: "alloc_chunk sys_ok n p = (Inr (Some c), p')"
  shows "capacity c \<in> set MEM_SIZES \<and> current_usage p' = current_usage p + capacity c \<and> pool_wf p'"
proof -
  from a have n: "n \<noteq> 0" and s: "find_suitable_size n \<noteq> 0"
    by (auto simp: alloc_chunk_def Let_def split: if_splits)
  let ?k = "find_suitable_size n"
  from s have mem: "?k \<in> set MEM_SIZES" by (rule find_suitable_size_mem)
  show ?thesis
  proof (cases "\<exists>chunk rest. pool p ?k = Some (chunk # rest)")
    case True
    then obtain chunk rest where l: "pool p ?k = Some (chunk # rest)" by blast
    with a n s have c: "c = chunk"
      and p': "p' = count_allocation ?k (p\<lparr>pool := (pool p)(?k \<mapsto> rest)\<rparr>)"
      by (simp_all add: alloc_chunk_def Let_def)
    from wf l have cap: "capacity chunk = ?k" by (rule pool_wf_lookup) simp
    from wf l have "\<forall>c' \<in> set rest. capacity c' = ?k"
      by (auto dest: pool_wf_lookup)
    with wf have "pool_wf (p\<lparr>pool := (pool p)(?k \<mapsto> rest)\<rparr>)" by (rule pool_wf_upd)
    with c p' cap mem show ?thesis by simp
  next
    case False
    then have l: "(case pool p ?k of Some (chunk # rest) \<Rightarrow> f chunk rest | _ \<Rightarrow> g) = g" for f and g :: "(pool_error + Chunk option) \<times> MemoryPool"
      by (auto split: option.splits list.splits)
    from a n s have c: "c = Chunk_new ?k" and p': "p' = count_allocation ?k p"
      by (simp_all add: alloc_chunk_def Let_def l split: if_splits)
    with wf mem show ?thesis by (simp add: Chunk_new_def)
  qed
qed

lemma alloc_chunk_no_chunk:
  assumes a: "alloc_chunk sys_ok n p = (r, p')" and r: "\<forall>c. r \<noteq> Inr (Some c)"
  shows "p' = p \<or> p' = count_failure p"
proof (cases "n = 0 \<or> find_suitable_size n = 0")
  case True
  with a show ?thesis by (auto simp: alloc_chunk_def Let_def split: if_splits)
next
  case False
  let ?k = "find_suitable_size n"
  show ?thesis
  proof (cases "\<exists>chunk rest. pool p ?k = Some (chunk # rest)")
    case True
    then obtain chunk rest where l: "pool p ?k = Some (chunk # rest)" by blast
    with a False have "r = Inr (Some chunk)" by (simp add: alloc_chunk_def Let_def)
    with r show ?thesis by simp
  next
    case F: False
    then have l: "(case pool p ?k of Some (chunk # rest) \<Rightarrow> f chunk rest | _ \<Rightarrow> g) = g" for f and g :: "(pool_error + Chunk option) \<times> MemoryPool"
      by (auto split: option.splits list.splits)
    from a False r show ?thesis
      by (auto simp add: alloc_chunk_def Let_def l split: if_splits)
  qed
qed

lemma accounted_alloc:
  assumes "accounted (p, held)"
  shows "accounted (pool_step (Alloc n sys_ok) (p, held))"
proof -
  obtain r p' where a: "alloc_chunk sys_ok n p = (r, p')" by (cases "alloc_chunk sys_ok n p")
  show ?thesis
  proof (cases "\<exists>c. r = Inr (Some c)")
    case True
    then obtain c where r: "r = Inr (Some c)" by blast
    from assms have wf: "pool_wf p" by (simp add: accounted_def)
    from alloc_chunk_success [OF wf a [unfolded r]] assms a r show ?thesis
      by (simp add: accounted_def held_ok_def)
  next
    case False
    then have nr: "\<forall>c. r \<noteq> Inr (Some c)" by blast
    from alloc_chunk_no_chunk [OF a nr] have "accounted (p', held)"
      using assms by (auto simp: accounted_def)
    moreover from a nr have "pool_step (Alloc n sys_ok) (p, held) = (p', held)"
      by (auto split: sum.splits option.splits)
    ultimately show ?thesis by simp
  qed
qed

lemma sum_list_remove_nth:
  "i < length xs \<Longrightarrow> sum_list (map f (take i xs @ drop (Suc i) xs)) + f (xs ! i) = sum_list (map f xs)"
  for f :: "'a \<Rightarrow> nat"
proof -
  assume "i < length xs"
  then have "xs = take i xs @ xs ! i # drop (Suc i) xs"
    by (simp add: id_take_nth_drop)
  then have "sum_list (map f xs) = sum_list (map f (take i xs @ xs ! i # drop (Suc i) xs))"
    by simp
  then show ?thesis by simp
qed

lemma retrieve_supported:
  assumes wf: "pool_wf p" and mem: "capacity c \<in> set MEM_SIZES"
  shows "pool_wf (retrieve (Some c) p) \<and>
         current_usage (retrieve (Some c) p) = current_usage p - capacity c"
proof -
  from mem have pos: "capacity c \<noteq> 0" using MEM_SIZES_pos by auto
  from mem have sup: "is_supported_size (capacity c)" by (simp add: is_supported_size_def)
  let ?cs = "case pool p (capacity c) of Some cs \<Rightarrow> Chunk_clear c # cs | None \<Rightarrow> [Chunk_clear c]"
  have cs: "\<forall>c' \<in> set ?cs. capacity c' = capacity c"
    using wf by (auto simp: Chunk_clear_def split: option.splits dest: pool_wf_lookup)
  have "pool (retrieve (Some c) p) = (pool p)(capacity c \<mapsto> ?cs)"
    using pos sup by (simp add: retrieve_def Let_def split: option.splits)
  with cs wf have "pool_wf (retrieve (Some c) p)"
    by (simp add: pool_wf_def)
  moreover have "current_usage (retrieve (Some c) p) = current_usage p - capacity c"
    using pos sup by (simp add: retrieve_def Let_def)
  ultimately show ?thesis by simp
qed

lemma accounted_retrieve:
  assumes "accounted (p, held)"
  shows "accounted (pool_step (Retrieve i) (p, held))"
proof (cases "i < length held")
  case False
  with assms show ?thesis by (simp add: retrieve_def)
next
  case True
  let ?c = "held ! i"
  from assms True have mem: "capacity ?c \<in> set MEM_SIZES"
    by (simp add: accounted_def held_ok_def)
  from assms have wf: "pool_wf p" and u: "current_usage p = sum_list (map capacity held)"
    by (simp_all add: accounted_def)
  have s: "sum_list (map capacity (take i held @ drop (Suc i) held)) + capacity ?c = sum_list (map capacity held)"
    using True by (rule sum_list_remove_nth)
  have h: "held_ok (take i held @ drop (Suc i) held)"
    using assms by (auto simp: accounted_def held_ok_def dest: in_set_takeD in_set_dropD)
  from retrieve_supported [OF wf mem] u s
  have "pool_wf (retrieve (Some ?c) p)"
    and "current_usage (retrieve (Some ?c) p) = sum_list (map capacity (take i held @ drop (Suc i) held))"
    by simp_all
  with True h show ?thesis by (simp add: accounted_def)
qed

lemma accounted_set_max: "accounted (p, held) \<Longrightarrow> accounted (pool_step (SetMaxCapacity m) (p, held))"
  by (simp add: accounted_def set_max_capacity_def pool_wf_def)

lemma accounted_step: "accounted w \<Longrightarrow> accounted (pool_step opn w)"
proof -
  assume a: "accounted w"
  obtain p held where w: "w = (p, held)" by (cases w)
  show ?thesis
  proof (cases opn)
    case (Alloc n sys_ok)
    with a w show ?thesis using accounted_alloc by blast
  next
    case (Retrieve i)
    with a w show ?thesis using accounted_retrieve by blast
  next
    case (SetMaxCapacity m)
    with a w show ?thesis using accounted_set_max by blast
  qed
qed

lemma accounted_run: "accounted w \<Longrightarrow> accounted (run_pool ops w)"
  unfolding run_pool_def
proof (induction ops arbitrary: w)
  case Nil
  then show ?case by simp
next
  case (Cons a ops)
  from Cons.prems have "accounted (pool_step a w)" by (rule accounted_step)
  then have "accounted (fold pool_step ops (pool_step a w))" by (rule Cons.IH)
  then show ?case by simp
qed

lemma accounted_fresh: "accounted (fresh_pool, [])"
proof -
  have "pool_wf fresh_pool"
    unfolding pool_wf_def fresh_pool_def Chunk_new_def
    by (auto split: if_splits)
  then show ?thesis by (simp add: accounted_def held_ok_def fresh_pool_def)
qed

text \<open>
  C6 (amended).  After any sequence of \<open>alloc_chunk\<close>, \<open>retrieve\<close> (of chunks the
  client holds) and \<open>set_max_capacity\<close> on the freshly constructed pool,
  \<open>current_usage_bytes\<close> equals the sum of the capacities of the chunks handed out and
  not yet returned.  When \<open>alloc_chunk\<close> has to create a chunk (the free list of the
  size class is empty), the call throws the exhaustion error and leaves the usage
  unchanged if usage plus chunk size exceeds \<open>max_capacity_bytes\<close>, and otherwise, when
  it succeeds, leaves the usage within the cap.
\<close>

theorem pool_usage_accounting:
  "current_usage (fst (run_pool ops (fresh_pool, []))) =
     sum_list (map capacity (snd (run_pool ops (fresh_pool, [])))) \<and>
   (n \<noteq> 0 \<and> find_suitable_size n \<noteq> 0 \<and>
    (pool p (find_suitable_size n) = None \<or> pool p (find_suitable_size n) = Some []) \<longrightarrow>
      (if current_usage p + find_suitable_size n > max_capacity_bytes p
       then alloc_chunk sys_ok n p = (Inl MemoryPoolExhaustedError, count_failure p)
       else if sys_ok
         then alloc_chunk sys_ok n p =
                (Inr (Some (Chunk_new (find_suitable_size n))),
                 count_allocation (find_suitable_size n) p) \<and>
              current_usage (snd (alloc_chunk sys_ok n p))
                \<le> max_capacity_bytes (snd (alloc_chunk sys_ok n p))
         else alloc_chunk sys_ok n p = (Inl MemoryAllocationError, count_failure p)))"
proof -
  have "accounted (run_pool ops (fresh_pool, []))"
    using accounted_fresh by (rule accounted_run)
  then have a: "current_usage (fst (run_pool ops (fresh_pool, []))) =
     sum_list (map capacity (snd (run_pool ops (fresh_pool, []))))"
    by (simp add: accounted_def)
  have b: "alloc_chunk sys_ok n p =
      (if current_usage p + find_suitable_size n > max_capacity_bytes p
       then (Inl MemoryPoolExhaustedError, count_failure p)
       else if sys_ok
         then (Inr (Some (Chunk_new (find_suitable_size n))),
               count_allocation (find_suitable_size n) p)
         else (Inl MemoryAllocationError, count_failure p))"
    if "n \<noteq> 0" "find_suitable_size n \<noteq> 0"
       "pool p (find_suitable_size n) = None \<or> pool p (find_suitable_size n) = Some []"
    using that by (auto simp: alloc_chunk_def Let_def)
  have c: "max_capacity_bytes (count_allocation s p) = max_capacity_bytes p" for s
    by (simp add: count_allocation_def Let_def)
  have d: "n \<noteq> 0 \<and> find_suitable_size n \<noteq> 0 \<and>
    (pool p (find_suitable_size n) = None \<or> pool p (find_suitable_size n) = Some []) \<longrightarrow>
      (if current_usage p + find_suitable_size n > max_capacity_bytes p
       then alloc_chunk sys_ok n p = (Inl MemoryPoolExhaustedError, count_failure p)
       else if sys_ok
         then alloc_chunk sys_ok n p =
                (Inr (Some (Chunk_new (find_suitable_size n))),
                 count_allocation (find_suitable_size n) p) \<and>
              current_usage (snd (alloc_chunk sys_ok n p))
                \<le> max_capacity_bytes (snd (alloc_chunk sys_ok n p))
         else alloc_chunk sys_ok n p = (Inl MemoryAllocationError, count_failure p))"
  proof
    assume h: "n \<noteq> 0 \<and> find_suitable_size n \<noteq> 0 \<and>
      (pool p (find_suitable_size n) = None \<or> pool p (find_suitable_size n) = Some [])"
    then have e: "alloc_chunk sys_ok n p =
      (if current_usage p + find_suitable_size n > max_capacity_bytes p
       then (Inl MemoryPoolExhaustedError, count_failure p)
       else if sys_ok
         then (Inr (Some (Chunk_new (find_suitable_size n))),
               count_allocation (find_suitable_size n) p)
         else (Inl MemoryAllocationError, count_failure p))"
      using b by blast
    show "if current_usage p + find_suitable_size n > max_capacity_bytes p
       then alloc_chunk sys_ok n p = (Inl MemoryPoolExhaustedError, count_failure p)
       else if sys_ok
         then alloc_chunk sys_ok n p =
                (Inr (Some (Chunk_new (find_suitable_size n))),
                 count_allocation (find_suitable_size n) p) \<and>
              current_usage (snd (alloc_chunk sys_ok n p))
                \<le> max_capacity_bytes (snd (alloc_chunk sys_ok n p))
         else alloc_chunk sys_ok n p = (Inl MemoryAllocationError, count_failure p)"
      unfolding e by (simp add: c count_allocation_def Let_def)
  qed
  from a d show ?thesis by (rule conjI)
qed

lemma alloc_chunk_fast_path:
  "n \<noteq> 0 \<Longrightarrow> find_suitable_size n = k \<Longrightarrow> k \<noteq> 0 \<Longrightarrow> pool p k = Some (c # rest) \<Longrightarrow>
   alloc_chunk sys_ok n p = (Inr (Some c), count_allocation k (p\<lparr>pool := (pool p)(k \<mapsto> rest)\<rparr>))"
  by (simp add: alloc_chunk_def Let_def)

lemma find_suitable_size_4096: "find_suitable_size 4096 = 4096"
  by (simp add: find_suitable_size_def MEM_SIZES_def)

lemma fresh_pool_4096:
  "pool fresh_pool 4096 = Some (Chunk_new 4096 # replicate 199 (Chunk_new 4096))"
proof -
  have "replicate (Suc 199) (Chunk_new 4096) = Chunk_new 4096 # replicate 199 (Chunk_new 4096)"
    by (rule replicate_Suc)
  then show ?thesis by (simp add: fresh_pool_def)
qed

theorem pool_usage_accounting_witness:
  "current_usage (fst (run_pool [Alloc 5000 True, Alloc 1 True, Retrieve 1] (fresh_pool, []))) =
     sum_list (map capacity (snd (run_pool [Alloc 5000 True, Alloc 1 True, Retrieve 1] (fresh_pool, [])))) \<and>
   alloc_chunk True 1 (fresh_pool\<lparr>pool := (pool fresh_pool)(4096 \<mapsto> []), max_capacity_bytes := 4095\<rparr>) =
     (Inl MemoryPoolExhaustedError,
      count_failure (fresh_pool\<lparr>pool := (pool fresh_pool)(4096 \<mapsto> []), max_capacity_bytes := 4095\<rparr>))"
  using pool_usage_accounting [of "[Alloc 5000 True, Alloc 1 True, Retrieve 1]" 1
      "fresh_pool\<lparr>pool := (pool fresh_pool)(4096 \<mapsto> []), max_capacity_bytes := 4095\<rparr>" True]
  by (simp add: find_suitable_size_def MEM_SIZES_def fresh_pool_def)

lemma find_suitable_size_4M: "find_suitable_size 4194304 = 4194304"
  by (simp add: find_suitable_size_def MEM_SIZES_def)

lemma fresh_pool_4M:
  "pool fresh_pool 4194304 = Some [Chunk_new 4194304, Chunk_new 4194304]"
proof -
  have "replicate 2 (Chunk_new 4194304) = [Chunk_new 4194304, Chunk_new 4194304]"
    by (simp add: numeral_2_eq_2)
  then show ?thesis by (simp add: fresh_pool_def)
qed

lemma run_pool_append: "run_pool (xs @ ys) w = run_pool ys (run_pool xs w)"
  by (simp add: run_pool_def)

lemma run_pool_Cons: "run_pool (x # xs) w = run_pool xs (pool_step x w)"
  by (simp add: run_pool_def)

lemma run_pool_Nil: "run_pool [] w = w"
  by (simp add: run_pool_def)

lemma replicate_32: "replicate 32 x = x # x # replicate 30 x"
proof -
  have n: "(32::nat) = Suc (Suc 30)" by simp
  show ?thesis by (simp only: n replicate.simps)
qed

text \<open>An allocation served from the free list: the cap plays no part.\<close>

lemma pool_step_fast_path:
  assumes "n \<noteq> 0" and "find_suitable_size n = k" and "k \<noteq> 0" and "pool p k = Some (c # rest)"
  shows "max_capacity_bytes (fst (pool_step (Alloc n sys_ok) (p, held))) = max_capacity_bytes p \<and>
         current_usage (fst (pool_step (Alloc n sys_ok) (p, held))) = current_usage p + k \<and>
         pool (fst (pool_step (Alloc n sys_ok) (p, held))) = (pool p)(k \<mapsto> rest)"
  using alloc_chunk_fast_path [OF assms, of sys_ok]
  by (simp add: count_allocation_def Let_def)

text \<open>Allocations that create their chunk, as long as the cap allows them.\<close>

lemma pool_step_created:
  assumes "n \<noteq> 0" and "find_suitable_size n = k" and "k \<noteq> 0" and "pool p k = Some []"
    and "current_usage p + k \<le> max_capacity_bytes p"
  shows "max_capacity_bytes (fst (pool_step (Alloc n True) (p, held))) = max_capacity_bytes p \<and>
         current_usage (fst (pool_step (Alloc n True) (p, held))) = current_usage p + k \<and>
         pool (fst (pool_step (Alloc n True) (p, held))) = pool p"
  using assms by (simp add: alloc_chunk_def count_allocation_def Let_def)

lemma run_pool_created:
  "pool p 4194304 = Some [] \<Longrightarrow> current_usage p + j * 4194304 \<le> max_capacity_bytes p \<Longrightarrow>
   max_capacity_bytes (fst (run_pool (replicate j (Alloc 4194304 True)) (p, held))) = max_capacity_bytes p \<and>
   current_usage (fst (run_pool (replicate j (Alloc 4194304 True)) (p, held))) = current_usage p + j * 4194304 \<and>
   pool (fst (run_pool (replicate j (Alloc 4194304 True)) (p, held))) = pool p"
proof (induction j arbitrary: p held)
  case 0
  then show ?case by (simp add: run_pool_Nil)
next
  case (Suc j)
  obtain p1 held1 where s: "pool_step (Alloc 4194304 True) (p, held) = (p1, held1)"
    by (cases "pool_step (Alloc 4194304 True) (p, held)")
  from Suc.prems have le: "current_usage p + 4194304 \<le> max_capacity_bytes p" by simp
  from pool_step_created [OF _ find_suitable_size_4M _ Suc.prems(1) le, of held] s
  have p1: "max_capacity_bytes p1 = max_capacity_bytes p"
    "current_usage p1 = current_usage p + 4194304" "pool p1 = pool p"
    by simp_all
  from Suc.prems p1 have "pool p1 4194304 = Some []"
    "current_usage p1 + j * 4194304 \<le> max_capacity_bytes p1" by simp_all
  from Suc.IH [OF this, of held1] p1
  have "max_capacity_bytes (fst (run_pool (replicate j (Alloc 4194304 True)) (p1, held1))) = max_capacity_bytes p \<and>
   current_usage (fst (run_pool (replicate j (Alloc 4194304 True)) (p1, held1))) = current_usage p + Suc j * 4194304 \<and>
   pool (fst (run_pool (replicate j (Alloc 4194304 True)) (p1, held1))) = pool p"
    by simp
  then show ?case
    by (simp only: replicate.simps run_pool_Cons s)
qed

text \<open>
  C6 as stated fails, in two ways.

  \<^item> \<open>set_max_capacity\<close> stores the new cap unchecked: after one chunk is handed out and
    the cap is set to 0, the usage (4096) exceeds the cap.
  \<^item> With the cap never touched: \<open>alloc_chunk\<close> hands out a chunk of a free list without
    comparing the usage with the cap.  On the freshly constructed pool (cap 134217728),
    32 allocations of 4194304 bytes (two from the free list, thirty created) bring the
    usage to exactly the cap; one more allocation of 4096 bytes, served from the free
    list, succeeds and leaves the usage at 134221824.
\<close>

theorem pool_cap_counterexample:
  "\<not> current_usage (fst (run_pool [Alloc 4096 True, SetMaxCapacity 0] (fresh_pool, [])))
       \<le> max_capacity_bytes (fst (run_pool [Alloc 4096 True, SetMaxCapacity 0] (fresh_pool, []))) \<and>
   max_capacity_bytes
     (fst (run_pool (replicate 32 (Alloc 4194304 True) @ [Alloc 4096 True]) (fresh_pool, []))) =
     max_capacity_bytes fresh_pool \<and>
   current_usage
     (fst (run_pool (replicate 32 (Alloc 4194304 True) @ [Alloc 4096 True]) (fresh_pool, []))) =
     134221824 \<and>
   \<not> current_usage
       (fst (run_pool (replicate 32 (Alloc 4194304 True) @ [Alloc 4096 True]) (fresh_pool, [])))
       \<le> max_capacity_bytes
           (fst (run_pool (replicate 32 (Alloc 4194304 True) @ [Alloc 4096 True]) (fresh_pool, [])))"
proof -
  have "alloc_chunk True 4096 fresh_pool =
          (Inr (Some (Chunk_new 4096)),
           count_allocation 4096
             (fresh_pool\<lparr>pool := (pool fresh_pool)(4096 \<mapsto> replicate 199 (Chunk_new 4096))\<rparr>))"
    using find_suitable_size_4096 fresh_pool_4096 by (intro alloc_chunk_fast_path) simp_all
  then have a: "\<not> current_usage (fst (run_pool [Alloc 4096 True, SetMaxCapacity 0] (fresh_pool, [])))
       \<le> max_capacity_bytes (fst (run_pool [Alloc 4096 True, SetMaxCapacity 0] (fresh_pool, [])))"
    by (simp add: run_pool_def count_allocation_def Let_def set_max_capacity_def fresh_pool_def)
  obtain p1 h1 where s1: "pool_step (Alloc 4194304 True) (fresh_pool, []) = (p1, h1)"
    by (cases "pool_step (Alloc 4194304 True) (fresh_pool, [])")
  from pool_step_fast_path [OF _ find_suitable_size_4M _ fresh_pool_4M, of True "[]"] s1
  have p1: "max_capacity_bytes p1 = 134217728" "current_usage p1 = 4194304"
    "pool p1 = (pool fresh_pool)(4194304 \<mapsto> [Chunk_new 4194304])"
    by (simp_all add: fresh_pool_def)
  obtain p2 h2 where s2: "pool_step (Alloc 4194304 True) (p1, h1) = (p2, h2)"
    by (cases "pool_step (Alloc 4194304 True) (p1, h1)")
  from p1 have "pool p1 4194304 = Some [Chunk_new 4194304]" by simp
  from pool_step_fast_path [OF _ find_suitable_size_4M _ this, of True h1] s2 p1
  have p2: "max_capacity_bytes p2 = 134217728" "current_usage p2 = 8388608"
    "pool p2 = (pool fresh_pool)(4194304 \<mapsto> [])"
    by simp_all
  obtain p3 h3 where s3: "run_pool (replicate 30 (Alloc 4194304 True)) (p2, h2) = (p3, h3)"
    by (cases "run_pool (replicate 30 (Alloc 4194304 True)) (p2, h2)")
  from p2 have "pool p2 4194304 = Some []"
    "current_usage p2 + 30 * 4194304 \<le> max_capacity_bytes p2" by simp_all
  from run_pool_created [OF this, of h2] s3 p2
  have p3: "max_capacity_bytes p3 = 134217728" "current_usage p3 = 134217728"
    "pool p3 = (pool fresh_pool)(4194304 \<mapsto> [])"
    by simp_all
  from p3 fresh_pool_4096
  have "pool p3 4096 = Some (Chunk_new 4096 # replicate 199 (Chunk_new 4096))" by simp
  from pool_step_fast_path [OF _ find_suitable_size_4096 _ this, of True h3] p3
  have p4: "max_capacity_bytes (fst (pool_step (Alloc 4096 True) (p3, h3))) = 134217728"
    "current_usage (fst (pool_step (Alloc 4096 True) (p3, h3))) = 134221824"
    by simp_all
  have r: "run_pool (replicate 32 (Alloc 4194304 True) @ [Alloc 4096 True]) (fresh_pool, []) =
        pool_step (Alloc 4096 True) (p3, h3)"
    by (simp only: replicate_32 run_pool_append run_pool_Cons run_pool_Nil s1 s2 s3)
  have m: "max_capacity_bytes fresh_pool = 134217728" by (simp add: fresh_pool_def)
  from a p4 show ?thesis unfolding r m by simp
qed

subsection \<open>InputBuffer::read_from_fd\<close>

lemma find_suitable_size_200: "find_suitable_size 200 = 4096"
  by (simp add: find_suitable_size_def MEM_SIZES_def)

lemma alloc_chunk_200_fresh:
  "alloc_chunk True 200 fresh_pool =
     (Inr (Some (Chunk_new 4096)),
      count_allocation 4096
        (fresh_pool\<lparr>pool := (pool fresh_pool)(4096 \<mapsto> replicate 199 (Chunk_new 4096))\<rparr>))"
  using find_suitable_size_200 fresh_pool_4096 by (intro alloc_chunk_fast_path) simp_all

lemma ensure_space_available_100:
  "ensure_space_available True DEFAULT_BUFFER_SIZE
     (\<lparr>data_buf = Some \<lparr>capacity = 4096, length_c = 100, head = 0\<rparr>\<rparr>, fresh_pool) =
   (True, \<lparr>data_buf = Some \<lparr>capacity = 4096, length_c = 100, head = 0\<rparr>\<rparr>,
    retrieve (Some \<lparr>capacity = 4096, length_c = 100, head = 0\<rparr>)
      (count_allocation 4096
        (fresh_pool\<lparr>pool := (pool fresh_pool)(4096 \<mapsto> replicate 199 (Chunk_new 4096))\<rparr>)))"
  by (simp add: ensure_space_available_def DEFAULT_BUFFER_SIZE_def size_sub_def Let_def
      expand_buffer_def alloc_chunk_200_fresh Chunk_copy_def Chunk_new_def)

text \<open>
  C5 (the code at the failing input).  An input buffer that holds 100 unconsumed bytes
  in a 4096-byte chunk: \<open>ensure_space_available(4096)\<close> computes the new size as
  \<open>length + needed = 200\<close>, swaps the chunk for another 4096-byte chunk and reports
  success with 3996 bytes free; \<open>read_from_fd\<close> then asks the kernel for 3996 bytes,
  although 5000 are pending.
\<close>

theorem read_from_fd_short_space:
  "fst (ensure_space_available True DEFAULT_BUFFER_SIZE
         (\<lparr>data_buf = Some \<lparr>capacity = 4096, length_c = 100, head = 0\<rparr>\<rparr>, fresh_pool)) = True \<and>
   data_buf (fst (snd (ensure_space_available True DEFAULT_BUFFER_SIZE
         (\<lparr>data_buf = Some \<lparr>capacity = 4096, length_c = 100, head = 0\<rparr>\<rparr>, fresh_pool)))) =
     Some \<lparr>capacity = 4096, length_c = 100, head = 0\<rparr> \<and>
   map_option (\<lambda>(n, b, p, s). (n, b, trace s))
     (read_from_fd True 7
        (\<lparr>data_buf = Some \<lparr>capacity = 4096, length_c = 100, head = 0\<rparr>\<rparr>, fresh_pool,
         \<lparr>env = [Ret 5000], trace = []\<rparr>)) =
     Some (3996, \<lparr>data_buf = Some \<lparr>capacity = 4096, length_c = 4096, head = 0\<rparr>\<rparr>, [SysRead 7 3996])"
  by (simp add: ensure_space_available_100 read_from_fd_def size_sub_def Let_def clamp_count_def
      EINTR_def)

subsection \<open>InputBuffer::read_from_fd: the system call and the result\<close>

lemma retry_eintr_result:
  "retry_eintr a count tr es = Some (r, s) \<Longrightarrow>
   r \<noteq> Failed EINTR \<and> (\<forall>n. r = Ret n \<longrightarrow> n \<le> count) \<and> set (trace s) = set tr \<union> {a}"
proof (induction es arbitrary: tr)
  case Nil
  then show ?case by simp
next
  case (Cons e es)
  show ?case
  proof (cases "e = Failed EINTR")
    case True
    with Cons.prems have "retry_eintr a count (tr @ [a]) es = Some (r, s)" by simp
    from Cons.IH [OF this] show ?thesis by auto
  next
    case False
    with Cons.prems show ?thesis
      by (cases e) (auto simp: clamp_count_def)
  qed
qed

lemma retry_eintr_interrupted:
  "retry_eintr a count tr (Failed EINTR # rest) = retry_eintr a count (tr @ [a]) rest"
  by simp

text \<open>
  The parts of C5 that hold: \<open>read_from_fd\<close> returns \<open>-1\<close>, \<open>0\<close> or a positive
  count of at most 64 KiB, and the only system call it adds to the trace is a \<open>read\<close>
  of at most 64 KiB on the descriptor.
\<close>

lemma read_from_fd_bounds:
  assumes "read_from_fd ok d (b, p, s) = Some (n, b', p', s')"
  shows "- 1 \<le> n \<and> n \<le> 65536 \<and>
         (\<forall>a \<in> set (trace s') - set (trace s). \<exists>c. a = SysRead d c \<and> c \<le> 65536)"
proof (cases "s' = s \<and> (n = - 1 \<or> n = 0)")
  case True
  then show ?thesis by auto
next
  case False
  with assms obtain c r where
    l: "retry_eintr (SysRead d (min c 65536)) (min c 65536) (trace s) (env s) = Some (r, s')"
    and n: "(\<exists>k. r = Ret k \<and> (n = int k \<or> n = 0)) \<or> (\<exists>e. r = Failed e \<and> (n = 0 \<or> n = - 1))"
    by (auto simp: read_from_fd_def Let_def
        split: if_splits prod.splits bool.splits option.splits sys_result.splits)
  from retry_eintr_result [OF l] n show ?thesis by auto
qed

subsection \<open>BufferBase::pop\<close>

text \<open>
  C9.  On a buffer that holds a chunk, \<open>pop(n)\<close> with \<open>n\<close> greater than the number of
  buffered bytes throws and leaves buffer and pool unchanged; \<open>pop(n)\<close> with
  \<open>n \<le> 0\<close>, or on a buffer without a chunk, returns normally and changes nothing.
\<close>

theorem pop_error_and_noop:
  "(data_buf b \<noteq> None \<and> BufferBase_length b < n \<longrightarrow> BufferBase_pop n (b, p) = (Threw, b, p)) \<and>
   (n \<le> 0 \<or> data_buf b = None \<longrightarrow> BufferBase_pop n (b, p) = (Returned, b, p))"
  by (auto simp: BufferBase_pop_def BufferBase_length_def split: option.splits)

theorem pop_error_and_noop_witness:
  "BufferBase_pop 5 (\<lparr>data_buf = Some \<lparr>capacity = 4096, length_c = 3, head = 1\<rparr>\<rparr>, fresh_pool) =
     (Threw, \<lparr>data_buf = Some \<lparr>capacity = 4096, length_c = 3, head = 1\<rparr>\<rparr>, fresh_pool) \<and>
   BufferBase_pop 0 (\<lparr>data_buf = Some \<lparr>capacity = 4096, length_c = 3, head = 1\<rparr>\<rparr>, fresh_pool) =
     (Returned, \<lparr>data_buf = Some \<lparr>capacity = 4096, length_c = 3, head = 1\<rparr>\<rparr>, fresh_pool) \<and>
   BufferBase_pop 7 (\<lparr>data_buf = None\<rparr>, fresh_pool) = (Returned, \<lparr>data_buf = None\<rparr>, fresh_pool)"
  using pop_error_and_noop [of "\<lparr>data_buf = Some \<lparr>capacity = 4096, length_c = 3, head = 1\<rparr>\<rparr>" 5 fresh_pool]
    pop_error_and_noop [of "\<lparr>data_buf = Some \<lparr>capacity = 4096, length_c = 3, head = 1\<rparr>\<rparr>" 0 fresh_pool]
    pop_error_and_noop [of "\<lparr>data_buf = None\<rparr>" 7 fresh_pool]
  by (simp add: BufferBase_length_def)

subsection \<open>EventLoop::update_channel\<close>








subsection \<open>Acceptor::do_accept\<close>

text \<open>
  C7.  A failed \<open>accept4\<close> is classified by its \<open>errno\<close>: \<open>EINTR\<close> retries the
  accept; \<open>EAGAIN\<close> or \<open>EWOULDBLOCK\<close> leaves the loop; \<open>EMFILE\<close> or \<open>ENFILE\<close>
  closes the rescue descriptor, accepts the pending connection, closes it at once (if
  the accept gave one), reopens \<open>/dev/null\<close> into the rescue slot and goes on accepting;
  any other \<open>errno\<close> logs and leaves the loop.
\<close>

theorem do_accept_errno_classes:
  "(err = EINTR \<longrightarrow>
      do_accept ok (a, \<lparr>env = Failed err # rest, trace = tr\<rparr>) =
      do_accept ok (a, \<lparr>env = rest, trace = tr @ [SysAccept4 (listen_fd a)]\<rparr>)) \<and>
   (err = EAGAIN \<or> err = EWOULDBLOCK \<longrightarrow>
      do_accept ok (a, \<lparr>env = Failed err # rest, trace = tr\<rparr>) =
      Some (\<lparr>listen_fd = listen_fd a, idle_fd = idle_fd a\<rparr>,
            \<lparr>env = rest, trace = tr @ [SysAccept4 (listen_fd a)]\<rparr>)) \<and>
   (err = EMFILE \<or> err = ENFILE \<longrightarrow>
      do_accept ok (a, \<lparr>env = Failed err # tmp # opened # rest, trace = tr\<rparr>) =
      do_accept ok
        (a\<lparr>idle_fd := (case opened of Ret n \<Rightarrow> int n | Failed e \<Rightarrow> -1)\<rparr>,
         \<lparr>env = rest,
          trace = tr @ [SysAccept4 (listen_fd a), LogError, SysClose (idle_fd a),
                        SysAccept (listen_fd a)] @
                  (case tmp of Ret t \<Rightarrow> [SysClose (int t)] | Failed e \<Rightarrow> []) @
                  [SysOpenDevNull]\<rparr>)) \<and>
   (err \<noteq> EINTR \<and> err \<noteq> EAGAIN \<and> err \<noteq> EWOULDBLOCK \<and> err \<noteq> EMFILE \<and> err \<noteq> ENFILE \<longrightarrow>
      do_accept ok (a, \<lparr>env = Failed err # rest, trace = tr\<rparr>) =
      Some (\<lparr>listen_fd = listen_fd a, idle_fd = idle_fd a\<rparr>,
            \<lparr>env = rest, trace = tr @ [SysAccept4 (listen_fd a), LogError]\<rparr>))"
  by (simp add: do_accept_def EINTR_def EAGAIN_def EWOULDBLOCK_def EMFILE_def ENFILE_def)

theorem do_accept_errno_classes_witness:
  "do_accept True (\<lparr>listen_fd = 3, idle_fd = 4\<rparr>,
      \<lparr>env = [Failed 24, Ret 9, Ret 4, Failed 4, Ret 10, Failed 11], trace = []\<rparr>) =
   Some (\<lparr>listen_fd = 3, idle_fd = 4\<rparr>,
         \<lparr>env = [],
          trace = [SysAccept4 3, LogError, SysClose 4, SysAccept 3, SysClose 9, SysOpenDevNull,
                   SysAccept4 3, SysAccept4 3, NewConnection 10, SysAccept4 3]\<rparr>) \<and>
   do_accept True (\<lparr>listen_fd = 3, idle_fd = 4\<rparr>, \<lparr>env = [Failed 103, Ret 7], trace = []\<rparr>) =
   Some (\<lparr>listen_fd = 3, idle_fd = 4\<rparr>, \<lparr>env = [Ret 7], trace = [SysAccept4 3, LogError]\<rparr>)"
proof -
  have 1: "do_accept True (\<lparr>listen_fd = 3, idle_fd = 4\<rparr>,
      \<lparr>env = [Failed 24, Ret 9, Ret 4, Failed 4, Ret 10, Failed 11], trace = []\<rparr>) =
    do_accept True (\<lparr>listen_fd = 3, idle_fd = 4\<rparr>,
      \<lparr>env = [Failed 4, Ret 10, Failed 11],
       trace = [SysAccept4 3, LogError, SysClose 4, SysAccept 3, SysClose 9, SysOpenDevNull]\<rparr>)"
    using do_accept_errno_classes [of 24 True "\<lparr>listen_fd = 3, idle_fd = 4\<rparr>" "[Failed 4, Ret 10, Failed 11]" "[]" "Ret 9" "Ret 4"]
    by (simp add: EMFILE_def)
  have 2: "do_accept True (\<lparr>listen_fd = 3, idle_fd = 4\<rparr>,
      \<lparr>env = [Failed 4, Ret 10, Failed 11],
       trace = [SysAccept4 3, LogError, SysClose 4, SysAccept 3, SysClose 9, SysOpenDevNull]\<rparr>) =
    do_accept True (\<lparr>listen_fd = 3, idle_fd = 4\<rparr>,
      \<lparr>env = [Ret 10, Failed 11],
       trace = [SysAccept4 3, LogError, SysClose 4, SysAccept 3, SysClose 9, SysOpenDevNull, SysAccept4 3]\<rparr>)"
    using do_accept_errno_classes [of 4 True "\<lparr>listen_fd = 3, idle_fd = 4\<rparr>" "[Ret 10, Failed 11]"
        "[SysAccept4 3, LogError, SysClose 4, SysAccept 3, SysClose 9, SysOpenDevNull]"]
    by (simp add: EINTR_def)
  have 3: "do_accept True (\<lparr>listen_fd = 3, idle_fd = 4\<rparr>,
      \<lparr>env = [Ret 10, Failed 11],
       trace = [SysAccept4 3, LogError, SysClose 4, SysAccept 3, SysClose 9, SysOpenDevNull, SysAccept4 3]\<rparr>) =
    do_accept True (\<lparr>listen_fd = 3, idle_fd = 4\<rparr>,
      \<lparr>env = [Failed 11],
       trace = [SysAccept4 3, LogError, SysClose 4, SysAccept 3, SysClose 9, SysOpenDevNull, SysAccept4 3,
                SysAccept4 3, NewConnection 10]\<rparr>)"
    by (simp add: do_accept_def)
  have 4: "do_accept True (\<lparr>listen_fd = 3, idle_fd = 4\<rparr>,
      \<lparr>env = [Failed 11],
       trace = [SysAccept4 3, LogError, SysClose 4, SysAccept 3, SysClose 9, SysOpenDevNull, SysAccept4 3,
                SysAccept4 3, NewConnection 10]\<rparr>) =
    Some (\<lparr>listen_fd = 3, idle_fd = 4\<rparr>,
         \<lparr>env = [],
          trace = [SysAccept4 3, LogError, SysClose 4, SysAccept 3, SysClose 9, SysOpenDevNull,
                   SysAccept4 3, SysAccept4 3, NewConnection 10, SysAccept4 3]\<rparr>)"
    using do_accept_errno_classes [of 11 True "\<lparr>listen_fd = 3, idle_fd = 4\<rparr>" "[]"
        "[SysAccept4 3, LogError, SysClose 4, SysAccept 3, SysClose 9, SysOpenDevNull, SysAccept4 3,
                SysAccept4 3, NewConnection 10]"]
    by (simp add: EAGAIN_def)
  have 5: "do_accept True (\<lparr>listen_fd = 3, idle_fd = 4\<rparr>, \<lparr>env = [Failed 103, Ret 7], trace = []\<rparr>) =
   Some (\<lparr>listen_fd = 3, idle_fd = 4\<rparr>, \<lparr>env = [Ret 7], trace = [SysAccept4 3, LogError]\<rparr>)"
    using do_accept_errno_classes [of 103 True "\<lparr>listen_fd = 3, idle_fd = 4\<rparr>" "[Ret 7]" "[]"]
    by (simp add: EINTR_def EAGAIN_def EWOULDBLOCK_def EMFILE_def ENFILE_def)
  from 1 2 3 4 5 show ?thesis by simp
qed

subsection \<open>The idle-timeout wheel\<close>

lemma process_slot_refs:
  "process_slot now T slot st = process_slot now T (map Some (slot_refs slot)) st"
proof (induction slot arbitrary: st)
  case Nil
  show ?case by (simp add: slot_refs_def map_filter_simps)
next
  case (Cons r slot)
  show ?case
  proof (cases r)
    case None
    with Cons show ?thesis by (simp add: slot_refs_def map_filter_simps)
  next
    case (Some e)
    have r: "slot_refs (Some e # slot) = e # slot_refs slot"
      by (simp add: slot_refs_def map_filter_simps)
    show ?thesis
      unfolding Some r list.map process_slot.simps Cons.IH [symmetric] ..
  qed
qed

lemma process_slot_distinct:
  "distinct es \<Longrightarrow>
   process_slot now T (map Some es) st =
     (map Some (filter (\<lambda>e. remaining_ticks (st e) > 0 \<or> now - last_activity_time (st e) < T) es),
      filter (\<lambda>e. \<not> remaining_ticks (st e) > 0 \<and> now - last_activity_time (st e) \<ge> T) es,
      (\<lambda>e. if e \<in> set es \<and> remaining_ticks (st e) > 0
           then (st e)\<lparr>remaining_ticks := remaining_ticks (st e) - 1\<rparr> else st e))"
proof (induction es arbitrary: st)
  case Nil
  show ?case by simp
next
  case (Cons e es)
  then have notin: "e \<notin> set es" and d: "distinct es" by simp_all
  show ?case
  proof (cases "remaining_ticks (st e) > 0")
    case True
    let ?st1 = "st(e := (st e)\<lparr>remaining_ticks := remaining_ticks (st e) - 1\<rparr>)"
    have k: "filter (\<lambda>x. remaining_ticks (?st1 x) > 0 \<or> now - last_activity_time (?st1 x) < T) es =
             filter (\<lambda>x. remaining_ticks (st x) > 0 \<or> now - last_activity_time (st x) < T) es"
      by (rule filter_cong) (use notin in auto)
    have x: "filter (\<lambda>x. \<not> remaining_ticks (?st1 x) > 0 \<and> now - last_activity_time (?st1 x) \<ge> T) es =
             filter (\<lambda>x. \<not> remaining_ticks (st x) > 0 \<and> now - last_activity_time (st x) \<ge> T) es"
      by (rule filter_cong) (use notin in auto)
    have s: "(\<lambda>x. if x \<in> set es \<and> remaining_ticks (?st1 x) > 0
           then (?st1 x)\<lparr>remaining_ticks := remaining_ticks (?st1 x) - 1\<rparr> else ?st1 x) =
          (\<lambda>x. if x \<in> set (e # es) \<and> remaining_ticks (st x) > 0
           then (st x)\<lparr>remaining_ticks := remaining_ticks (st x) - 1\<rparr> else st x)"
      using notin True by (auto simp: fun_eq_iff)
    from Cons.IH [OF d, of ?st1] True show ?thesis
      by (simp add: k x s del: fun_upd_apply)
  next
    case False
    have s: "(\<lambda>x. if x \<in> set es \<and> remaining_ticks (st x) > 0
           then (st x)\<lparr>remaining_ticks := remaining_ticks (st x) - 1\<rparr> else st x) =
          (\<lambda>x. if x \<in> set (e # es) \<and> remaining_ticks (st x) > 0
           then (st x)\<lparr>remaining_ticks := remaining_ticks (st x) - 1\<rparr> else st x)"
      using False by (auto simp: fun_eq_iff)
    from Cons.IH [OF d, of st] False show ?thesis
      by (auto simp: s)
  qed
qed

lemma handle_expired_frame:
  "time_wheel (fst (handle_expired es m called)) = time_wheel m \<and>
   entry_store (fst (handle_expired es m called)) = entry_store m \<and>
   current_slot (fst (handle_expired es m called)) = current_slot m \<and>
   wheel_size (fst (handle_expired es m called)) = wheel_size m \<and>
   snd (handle_expired es m called) =
     called @ (if timeout_callback m then List.map_filter (\<lambda>e. conn (entry_store m e)) es else [])"
proof (induction es arbitrary: m called)
  case Nil
  show ?case by (simp add: map_filter_simps)
next
  case (Cons e es)
  show ?case
  proof (cases "conn (entry_store m e)")
    case None
    with Cons [of m called] show ?thesis by (simp add: map_filter_simps)
  next
    case (Some c)
    let ?m = "m\<lparr>connections := (connections m)(conn_fd m c := None),
               total_connections := (total_connections m + 2 ^ 64 - 1) mod 2 ^ 64\<rparr>"
    from Cons [of ?m "if timeout_callback m then called @ [c] else called"] Some
    show ?thesis by (simp add: map_filter_simps)
  qed
qed

text \<open>
  C8.  One tick on a wheel whose current slot is inside the wheel and holds each entry
  once: the slot afterwards holds, in order, the entries that had ticks left (each
  decremented by one) and the entries without ticks left that were idle for less than
  the timeout; the entries without ticks left and idle for at least the timeout are
  removed and are the ones handed to the timeout callback; no other entry changes; and
  the current slot advances to \<open>(current + 1) mod W\<close>.
\<close>

theorem time_wheel_tick_slot:
  assumes "0 \<le> current_slot m" and "nat (current_slot m) < length (time_wheel m)"
    and "distinct (slot_refs (time_wheel m ! nat (current_slot m)))"
  shows "time_wheel (fst (time_wheel_tick now m)) =
           (time_wheel m)[nat (current_slot m) :=
              map Some (spec_kept now (idle_timeout_ms m) (entry_store m)
                          (slot_refs (time_wheel m ! nat (current_slot m))))] \<and>
         entry_store (fst (time_wheel_tick now m)) =
           spec_decremented (entry_store m) (slot_refs (time_wheel m ! nat (current_slot m))) \<and>
         snd (time_wheel_tick now m) =
           (if timeout_callback m
            then List.map_filter (\<lambda>e. conn (entry_store m e))
                   (spec_expired now (idle_timeout_ms m) (entry_store m)
                      (slot_refs (time_wheel m ! nat (current_slot m))))
            else []) \<and>
         current_slot (fst (time_wheel_tick now m)) = (current_slot m + 1) mod wheel_size m"
proof -
  let ?es = "slot_refs (time_wheel m ! nat (current_slot m))"
  let ?T = "idle_timeout_ms m"
  let ?st = "entry_store m"
  let ?m1 = "m\<lparr>time_wheel := (time_wheel m)[nat (current_slot m) := map Some (spec_kept now ?T ?st ?es)],
               entry_store := spec_decremented ?st ?es\<rparr>"
  have p: "process_slot now ?T (time_wheel m ! nat (current_slot m)) ?st =
           (map Some (spec_kept now ?T ?st ?es), spec_expired now ?T ?st ?es, spec_decremented ?st ?es)"
    using process_slot_distinct [OF assms(3), of now ?T ?st]
    by (simp add: process_slot_refs [symmetric] spec_kept_def spec_expired_def spec_decremented_def)
  have q: "process_timeout_connections now m = handle_expired (spec_expired now ?T ?st ?es) ?m1 []"
    using assms(1,2) by (simp add: process_timeout_connections_def p)
  have c: "conn (spec_decremented ?st ?es e) = conn (?st e)" for e
    by (simp add: spec_decremented_def)
  have f: "time_wheel (fst (handle_expired (spec_expired now ?T ?st ?es) ?m1 [])) = time_wheel ?m1"
    "entry_store (fst (handle_expired (spec_expired now ?T ?st ?es) ?m1 [])) = entry_store ?m1"
    "current_slot (fst (handle_expired (spec_expired now ?T ?st ?es) ?m1 [])) = current_slot ?m1"
    "wheel_size (fst (handle_expired (spec_expired now ?T ?st ?es) ?m1 [])) = wheel_size ?m1"
    "snd (handle_expired (spec_expired now ?T ?st ?es) ?m1 []) =
       [] @ (if timeout_callback ?m1
             then List.map_filter (\<lambda>e. conn (entry_store ?m1 e)) (spec_expired now ?T ?st ?es) else [])"
    using handle_expired_frame [of "spec_expired now ?T ?st ?es" ?m1 "[]"] by blast+
  show ?thesis
    by (simp add: time_wheel_tick_def q f c split_beta)
qed

theorem time_wheel_tick_slot_witness:
  "time_wheel (fst (time_wheel_tick 10000 example_wheel)) = [[Some 1, Some 3], [], []] \<and>
   remaining_ticks (entry_store (fst (time_wheel_tick 10000 example_wheel)) 1) = 1 \<and>
   snd (time_wheel_tick 10000 example_wheel) = [12] \<and>
   current_slot (fst (time_wheel_tick 10000 example_wheel)) = 1"
  using time_wheel_tick_slot [of example_wheel 10000]
  by (simp add: example_wheel_def slot_refs_def map_filter_simps spec_kept_def spec_expired_def
      spec_decremented_def)

text \<open>
  The connection table is erased at the connection's current descriptor: for the expired
  connection 12 of the example, closed before the tick, that is \<open>-1\<close>, and the entry
  under its former descriptor 22 stays in the table while the counter goes down.
\<close>

lemma time_wheel_tick_closed_connection:
  "connections (fst (time_wheel_tick 10000 example_wheel)) 22 = Some 2 \<and>
   connections (fst (time_wheel_tick 10000 example_wheel)) (- 1) = None \<and>
   total_connections (fst (time_wheel_tick 10000 example_wheel)) = 2"
  by (simp add: time_wheel_tick_def process_timeout_connections_def example_wheel_def split_beta)

subsection \<open>TcpServer::get_next_loop with \<open>io_thread_count = 0\<close>\<close>

lemma upt_4: "[0 ..< 4] = [0, Suc 0, 2, 3]"
  by (simp add: upt_rec)

text \<open>
  C2 (the code at the failing input).  On a machine whose
  \<open>hardware_concurrency()\<close> is 4, a server constructed with \<open>io_thread_count = 0\<close>
  hands the 0 to the loop pool, which takes it to mean "one thread per core": after
  \<open>start\<close> there are four worker loops, and \<open>get_next_loop\<close> returns worker loop 0,
  not the base loop.
\<close>

theorem zero_io_threads_uses_workers:
  "map_sum id (\<lambda>srv. (map_option threads (thread_pool (TcpServer_start srv)),
                        fst (TcpServer_get_next_loop (TcpServer_start srv))))
     (TcpServer_ctor 4 False 8080 0) =
   Inr (Some [0, 1, 2, 3], WorkerLoop 0)"
  by (simp add: TcpServer_ctor_def EventLoopThreadPool_ctor_def int_of_unsigned_def
      TcpServer_start_def EventLoopThreadPool_start_def TcpServer_get_next_loop_def
      EventLoopThreadPool_get_next_loop_def upt_4)

lemma zero_io_threads_general:
  assumes "0 < hw" and "hw < 2 ^ 31"
  shows "\<exists>srv. TcpServer_ctor hw False 8080 0 = Inr srv \<and>
           fst (TcpServer_get_next_loop (TcpServer_start srv)) = WorkerLoop 0"
proof -
  from assms have m: "hw mod 2 ^ 32 = hw" by simp
  from assms have n: "[0 ..< hw] \<noteq> []" by simp
  have z: "[0 ..< hw] ! 0 = 0" using assms by simp
  show ?thesis
    using assms n z
    by (simp add: TcpServer_ctor_def EventLoopThreadPool_ctor_def int_of_unsigned_def m
      TcpServer_start_def EventLoopThreadPool_start_def TcpServer_get_next_loop_def
      EventLoopThreadPool_get_next_loop_def Let_def)
qed

subsection \<open>The connection's state atom and its close\<close>

lemma step_ok_refl: "step_ok w w"
  by (simp add: step_ok_def)

lemma step_ok_trans: "step_ok w w' \<Longrightarrow> step_ok w' w'' \<Longrightarrow> step_ok w w''"
  by (auto simp: step_ok_def)

lemma step_ok_quiet:
  "state (w_conn w') = state (w_conn w) \<Longrightarrow>
   filter (\<lambda>a. a = CloseCb) (trace (w_io w')) = filter (\<lambda>a. a = CloseCb) (trace (w_io w)) \<Longrightarrow>
   filter is_SysClose (trace (w_io w')) = filter is_SysClose (trace (w_io w)) \<Longrightarrow>
   step_ok w w'"
  by (simp add: step_ok_def close_cb_calls_def fd_closes_def)

lemma retry_eintr_filter:
  "\<not> P a \<Longrightarrow> retry_eintr a count tr es = Some (r, s) \<Longrightarrow> filter P (trace s) = filter P tr"
proof (induction es arbitrary: tr)
  case Nil
  then show ?case by simp
next
  case (Cons e es)
  show ?case
  proof (cases "e = Failed EINTR")
    case True
    with Cons.prems have "retry_eintr a count (tr @ [a]) es = Some (r, s)" by simp
    with Cons.IH [of "tr @ [a]"] Cons.prems(1) show ?thesis by simp
  next
    case False
    with Cons.prems show ?thesis by auto
  qed
qed

lemma read_from_fd_filter:
  assumes "\<And>d c. \<not> P (SysRead d c)"
    and "read_from_fd ok d (b, p, s) = Some (n, b', p', s')"
  shows "filter P (trace s') = filter P (trace s)"
proof -
  from assms(2) have
    "s' = s \<or> (\<exists>c r. retry_eintr (SysRead d c) c (trace s) (env s) = Some (r, s'))"
    by (auto simp: read_from_fd_def Let_def
        split: if_splits prod.splits bool.splits option.splits sys_result.splits)
  with assms(1) show ?thesis by (auto dest: retry_eintr_filter [rotated])
qed

lemma write_to_fd_filter:
  assumes "\<And>d c. \<not> P (SysWrite d c)"
    and "write_to_fd d (b, p, s) = Some (n, b', p', s')"
  shows "filter P (trace s') = filter P (trace s)"
proof -
  from assms(2) have
    "s' = s \<or> (\<exists>c r. retry_eintr (SysWrite d c) c (trace s) (env s) = Some (r, s'))"
    by (auto simp: write_to_fd_def Let_def
        split: if_splits prod.splits bool.splits option.splits sys_result.splits outcome.splits)
  with assms(1) show ?thesis by (auto dest: retry_eintr_filter [rotated])
qed

lemma step_ok_log_action:
  "a \<noteq> CloseCb \<Longrightarrow> \<not> is_SysClose a \<Longrightarrow> step_ok w (log_action a w)"
  by (rule step_ok_quiet) (simp_all add: log_action_def)

lemma step_ok_on_channel: "step_ok w (on_channel f w)"
proof (cases "channel (w_conn w)")
  case None
  then show ?thesis by (simp add: on_channel_def step_ok_log_action)
next
  case (Some ch)
  then show ?thesis
    by (intro step_ok_quiet) (simp_all add: on_channel_def split: prod.splits)
qed

lemma handle_close_not_connected: "state (w_conn w) \<noteq> kConnected \<Longrightarrow> handle_close w = w"
  by (simp add: handle_close_def)

lemma handle_close_connected:
  assumes "state (w_conn w) = kConnected"
  shows "state (w_conn (handle_close w)) = kDisconnected"
    and "close_cb_calls (handle_close w) = close_cb_calls w + (if close_cb (w_conn w) then 1 else 0)"
    and "fd_closes (handle_close w) = fd_closes w + 1"
    and "trace (w_io (handle_close w)) =
           trace (w_io w) @ (if close_cb (w_conn w) then [CloseCb] else []) @ [SysClose (connfd (w_conn w))]"
  using assms
  by (simp_all add: handle_close_def Let_def log_action_def close_cb_calls_def fd_closes_def
      split: option.splits)

lemma step_ok_handle_close: "step_ok w (handle_close w)"
proof (cases "state (w_conn w) = kConnected")
  case True
  from handle_close_connected(1,2,3) [OF True] True show ?thesis
    by (simp add: step_ok_def)
next
  case False
  then show ?thesis by (simp add: handle_close_not_connected step_ok_refl)
qed

lemma step_ok_shutdownInLoop: "step_ok w (shutdownInLoop w)"
  by (simp add: shutdownInLoop_def step_ok_def Let_def log_action_def close_cb_calls_def
      fd_closes_def)

lemma step_ok_shutdown: "step_ok w (shutdown t w)"
proof -
  have "step_ok w (w\<lparr>w_pending := w_pending w @ [FShutdownInLoop]\<rparr>)"
    by (rule step_ok_quiet) simp_all
  then show ?thesis by (simp add: shutdown_def step_ok_shutdownInLoop step_ok_refl)
qed

lemma step_ok_handle_read:
  assumes "handle_read w = Some w'"
  shows "step_ok w w'"
proof (cases "read_from_fd (w_new_ok w) (connfd (w_conn w)) (input_buf (w_conn w), w_pool w, w_io w)")
  case None
  with assms show ?thesis by (simp add: handle_read_def)
next
  case (Some x)
  obtain n b p s where x: "x = (n, b, p, s)" by (cases x) auto
  note r = Some [unfolded x]
  define w1 where "w1 = w\<lparr>w_conn := (w_conn w)\<lparr>input_buf := b\<rparr>, w_pool := p, w_io := s\<rparr>"
  have f1: "filter (\<lambda>a. a = CloseCb) (trace s) = filter (\<lambda>a. a = CloseCb) (trace (w_io w))"
    by (rule read_from_fd_filter [OF _ r]) simp
  have f2: "filter is_SysClose (trace s) = filter is_SysClose (trace (w_io w))"
    by (rule read_from_fd_filter [OF _ r]) simp
  have q: "step_ok w w1"
    by (rule step_ok_quiet) (simp_all add: w1_def f1 f2)
  have e: "handle_read w =
      (if n > 0 then Some (if message_cb (w_conn w1) then log_action MessageCb w1 else w1)
       else if n = 0 then Some (handle_close w1) else Some (handle_error w1))"
    unfolding w1_def by (simp only: handle_read_def r option.case prod.case Let_def)
  have m: "step_ok w1 (log_action MessageCb w1)" by (rule step_ok_log_action) simp_all
  have c: "step_ok w1 (handle_close w1)" by (rule step_ok_handle_close)
  have "step_ok w1 w'"
  proof (cases "n > 0")
    case True
    with assms e have "w' = (if message_cb (w_conn w1) then log_action MessageCb w1 else w1)"
      by simp
    with m show ?thesis by (simp add: step_ok_refl)
  next
    case False
    with assms e have "w' = handle_close w1" by (simp add: handle_error_def split: if_splits)
    with c show ?thesis by simp
  qed
  with q show ?thesis by (rule step_ok_trans)
qed

lemma step_ok_handle_write:
  assumes "handle_write w = Some w'"
  shows "step_ok w w'"
proof (cases "write_to_fd (connfd (w_conn w)) (output_buf (w_conn w), w_pool w, w_io w)")
  case None
  with assms show ?thesis by (simp add: handle_write_def)
next
  case (Some x)
  obtain n b p s where x: "x = (n, b, p, s)" by (cases x) auto
  note r = Some [unfolded x]
  define w1 where "w1 = w\<lparr>w_conn := (w_conn w)\<lparr>output_buf := b\<rparr>, w_pool := p, w_io := s\<rparr>"
  define w2 where "w2 = on_channel Channel_disable_write w1"
  define w3 where "w3 = log_action (SysShutdownWr (connfd (w_conn w2))) w2"
  have f1: "filter (\<lambda>a. a = CloseCb) (trace s) = filter (\<lambda>a. a = CloseCb) (trace (w_io w))"
    by (rule write_to_fd_filter [OF _ r]) simp
  have f2: "filter is_SysClose (trace s) = filter is_SysClose (trace (w_io w))"
    by (rule write_to_fd_filter [OF _ r]) simp
  have q: "step_ok w w1"
    by (rule step_ok_quiet) (simp_all add: w1_def f1 f2)
  have q2: "step_ok w1 w2" unfolding w2_def by (rule step_ok_on_channel)
  have "step_ok w2 w3" unfolding w3_def by (rule step_ok_log_action) simp_all
  with q2 have q3: "step_ok w1 w3" by (rule step_ok_trans)
  have c: "step_ok w1 (handle_close w1)" by (rule step_ok_handle_close)
  have e: "handle_write w =
      (if n < 0 then Some (handle_error w1)
       else if BufferBase_length (output_buf (w_conn w1)) = 0 then
         Some (if state (w_conn w2) = kDisconnecting then w3 else w2)
       else Some w1)"
    unfolding w3_def w2_def w1_def
    by (simp only: handle_write_def r option.case prod.case Let_def)
  have "step_ok w1 w'"
  proof (cases "n < 0")
    case True
    with assms e have "w' = handle_close w1" by (simp add: handle_error_def)
    with c show ?thesis by simp
  next
    case False
    with assms e have "w' = w1 \<or> w' = w2 \<or> w' = w3" by (simp split: if_splits)
    with q2 q3 show ?thesis by (auto simp: step_ok_refl)
  qed
  with q show ?thesis by (rule step_ok_trans)
qed

lemma step_ok_handle_event:
  assumes "handle_event revents w = Some w'"
  shows "step_ok w w'"
proof (cases "revents AND (EPOLLERR OR EPOLLHUP) \<noteq> 0 \<or> revents AND EPOLLRDHUP \<noteq> 0")
  case True
  with assms have "w' = handle_close w"
    by (auto simp: handle_event_def handle_error_def split: if_splits)
  then show ?thesis by (simp add: step_ok_handle_close)
next
  case False
  let ?r1 = "if revents AND EPOLLIN \<noteq> 0 then handle_read w else Some w"
  from False have e: "handle_event revents w =
      (case ?r1 of None \<Rightarrow> None
       | Some w1 \<Rightarrow> if revents AND EPOLLOUT \<noteq> 0 then handle_write w1 else Some w1)"
    by (simp add: handle_event_def)
  from assms [unfolded e] obtain w1 where r1: "?r1 = Some w1"
    and r2: "(if revents AND EPOLLOUT \<noteq> 0 then handle_write w1 else Some w1) = Some w'"
    by (cases ?r1) simp_all
  from r1 have "step_ok w w1"
    by (cases "revents AND EPOLLIN \<noteq> 0") (simp_all add: step_ok_handle_read step_ok_refl)
  moreover from r2 have "step_ok w1 w'"
    by (cases "revents AND EPOLLOUT \<noteq> 0") (simp_all add: step_ok_handle_write step_ok_refl)
  ultimately show ?thesis by (rule step_ok_trans)
qed

lemma step_ok_send_tail: "step_ok w (send_tail n len w)"
proof (cases "n < len")
  case False
  then show ?thesis by (simp add: send_tail_def step_ok_refl)
next
  case True
  obtain r b p where
    wb: "write_to_buf (w_new_ok w) False (int_of_size_t (len - n)) (output_buf (w_conn w), w_pool w) = (r, b, p)"
    by (cases "write_to_buf (w_new_ok w) False (int_of_size_t (len - n)) (output_buf (w_conn w), w_pool w)")
  let ?w1 = "w\<lparr>w_conn := (w_conn w)\<lparr>output_buf := b\<rparr>, w_pool := p\<rparr>"
  have "step_ok w ?w1" by (rule step_ok_quiet) simp_all
  moreover have "step_ok ?w1 (on_channel Channel_enable_write ?w1)" by (rule step_ok_on_channel)
  ultimately have "step_ok w (on_channel Channel_enable_write ?w1)" by (rule step_ok_trans)
  with True wb show ?thesis by (simp add: send_tail_def)
qed

lemma step_ok_sendInLoop:
  assumes "sendInLoop len w = Some w'"
  shows "step_ok w w'"
proof -
  from assms consider "w' = w" | "w' = send_tail 0 len w"
    | r rest n where "env (w_io w) = r # rest"
        "w' = handle_close (w\<lparr>w_io := \<lparr>env = rest, trace = trace (w_io w) @ [SysWrite (connfd (w_conn w)) len]\<rparr>\<rparr>) \<or>
         w' = send_tail n len (w\<lparr>w_io := \<lparr>env = rest, trace = trace (w_io w) @ [SysWrite (connfd (w_conn w)) len]\<rparr>\<rparr>)"
    by (auto simp: sendInLoop_def handle_error_def Let_def
        split: if_splits list.splits sys_result.splits)
  then show ?thesis
  proof cases
    case 1
    then show ?thesis by (simp add: step_ok_refl)
  next
    case 2
    then show ?thesis by (simp add: step_ok_send_tail)
  next
    case 3
    let ?w1 = "w\<lparr>w_io := \<lparr>env = rest, trace = trace (w_io w) @ [SysWrite (connfd (w_conn w)) len]\<rparr>\<rparr>"
    have "step_ok w ?w1" by (rule step_ok_quiet) simp_all
    moreover from 3 have "step_ok ?w1 w'"
      by (auto simp: step_ok_handle_close step_ok_send_tail)
    ultimately show ?thesis by (rule step_ok_trans)
  qed
qed

lemma step_ok_run_functors: "run_functors fs w = Some w' \<Longrightarrow> step_ok w w'"
proof (induction fs w rule: run_functors.induct)
  case (1 w)
  then show ?case by (simp add: step_ok_refl)
next
  case (2 len fs w)
  from "2.prems" obtain w1 where s: "sendInLoop len w = Some w1" and r: "run_functors fs w1 = Some w'"
    by (auto split: option.splits)
  from s have "step_ok w w1" by (rule step_ok_sendInLoop)
  moreover from "2.IH" [OF s r] have "step_ok w1 w'" .
  ultimately show ?case by (rule step_ok_trans)
next
  case (3 fs w)
  have "step_ok w (shutdownInLoop w)" by (rule step_ok_shutdownInLoop)
  moreover from 3 have "step_ok (shutdownInLoop w) w'" by simp
  ultimately show ?case by (rule step_ok_trans)
qed

lemma step_ok_conn_step: "conn_step opn w = Some w' \<Longrightarrow> step_ok w w'"
proof (cases opn)
  case (HandleEvent revents)
  assume "conn_step opn w = Some w'"
  with HandleEvent show ?thesis by (simp add: step_ok_handle_event)
next
  case (Send len t)
  assume "conn_step opn w = Some w'"
  with Send have "w' = w \<or> sendInLoop len w = Some w' \<or> w' = w\<lparr>w_pending := w_pending w @ [FSendInLoop len]\<rparr>"
    by (auto simp: send_def split: if_splits)
  moreover have "step_ok w (w\<lparr>w_pending := w_pending w @ [FSendInLoop len]\<rparr>)"
    by (rule step_ok_quiet) simp_all
  ultimately show ?thesis by (auto simp: step_ok_refl step_ok_sendInLoop)
next
  case (Shutdown t)
  assume "conn_step opn w = Some w'"
  with Shutdown show ?thesis by (auto simp: step_ok_shutdown)
next
  case DoPendingFunctors
  assume "conn_step opn w = Some w'"
  with DoPendingFunctors have "run_functors (w_pending w) (w\<lparr>w_pending := []\<rparr>) = Some w'"
    by (simp add: do_pending_functors_def)
  then have "step_ok (w\<lparr>w_pending := []\<rparr>) w'" by (rule step_ok_run_functors)
  moreover have "step_ok w (w\<lparr>w_pending := []\<rparr>)" by (rule step_ok_quiet) simp_all
  ultimately show ?thesis by (blast intro: step_ok_trans)
next
  case (PopInput n)
  assume "conn_step opn w = Some w'"
  with PopInput show ?thesis
    by (auto split: prod.splits intro!: step_ok_quiet)
qed

lemma step_ok_run_conn: "run_conn ops w = Some w' \<Longrightarrow> step_ok w w'"
proof (induction ops arbitrary: w)
  case Nil
  then show ?case by (simp add: step_ok_refl)
next
  case (Cons opn ops)
  from Cons.prems obtain w1 where s: "conn_step opn w = Some w1" and r: "run_conn ops w1 = Some w'"
    by (auto split: option.splits)
  from s have "step_ok w w1" by (rule step_ok_conn_step)
  moreover from r have "step_ok w1 w'" by (rule Cons.IH)
  ultimately show ?case by (rule step_ok_trans)
qed

lemma connect_established_closes:
  "close_cb_calls (connect_established w) = close_cb_calls w \<and>
   fd_closes (connect_established w) = fd_closes w \<and>
   state (w_conn (connect_established w)) = kConnected"
  by (simp add: connect_established_def Let_def log_action_def close_cb_calls_def fd_closes_def
      split: prod.splits)

lemma established_fresh:
  "connect_established (fresh_world results) =
     \<lparr>w_conn = \<lparr>connfd = 5,
                channel = Some \<lparr>ch_id = 1, fd = 5, events = EPOLLIN OR EPOLLRDHUP, tied = True\<rparr>,
                input_buf = \<lparr>data_buf = None\<rparr>, output_buf = \<lparr>data_buf = None\<rparr>,
                connected_cb = True, message_cb = True, close_cb = True, state = kConnected\<rparr>,
      w_pool = fresh_pool,
      w_loop = \<lparr>epoller = [5 \<mapsto> (EPOLLIN OR EPOLLRDHUP, 1)], channels = [5 \<mapsto> 1]\<rparr>,
      w_io = \<lparr>env = results, trace = [ConnectedCb]\<rparr>,
      w_new_ok = True, w_next_addr = 2, w_pending = [],
      w_ctl_ok = (\<lambda>n. True), w_ctl_calls = 1\<rparr>"
  by (simp add: connect_established_def fresh_world_def TcpConnection_new_def Channel_new_def
      Channel_enable_read_def update_channel_def Epoll_add_def Let_def log_action_def
      EPOLLIN_def EPOLLRDHUP_def)

lemma run_example:
  "map_option (\<lambda>w. (state (w_conn w), trace (w_io w)))
     (run_conn [Shutdown False, Shutdown False, HandleEvent 0x2000, DoPendingFunctors, HandleEvent 0x10]
        (connect_established (fresh_world []))) =
   Some (kDisconnected, [ConnectedCb, CloseCb, SysClose 5])"
  by (simp add: established_fresh shutdown_def handle_event_def handle_error_def handle_close_def
      do_pending_functors_def shutdownInLoop_def Let_def log_action_def
      EPOLLERR_def EPOLLHUP_def EPOLLRDHUP_def EPOLLIN_def EPOLLOUT_def)

text \<open>
  C1 (the code at the failing input).  A connected connection with an empty output
  buffer is asked to send 2 MiB and the direct write would block: \<open>write_to_buf\<close>
  refuses the tail (it returns \<open>-1\<close>), \<open>sendInLoop\<close> does not look at the result
  and enables the write event; the connection stays Connected, the close callback is not
  called and the output buffer stays empty.
\<close>

theorem sendInLoop_ignores_write_to_buf:
  "fst (write_to_buf True False (int_of_size_t 2097152) (\<lparr>data_buf = None\<rparr>, fresh_pool)) = -1 \<and>
   map_option (\<lambda>w. (state (w_conn w), trace (w_io w), data_buf (output_buf (w_conn w))))
     (sendInLoop 2097152 (connect_established (fresh_world [Failed 11]))) =
   Some (kConnected, [ConnectedCb, SysWrite 5 2097152], None)"
  by (simp add: established_fresh sendInLoop_def BufferBase_length_def clamp_count_def EAGAIN_def
      send_tail_def write_to_buf_def int_of_size_t_def on_channel_def Let_def
      Channel_enable_write_def)

text \<open>
  C3.  \<open>handle_close\<close> is a no-op unless the state is Connected, and from Connected it
  sets Disconnected, calls the close callback (if set) once and closes the descriptor
  once.  Along any run of events, sends, shutdowns (from any thread), queued functors and
  input consumption, from any state of the connection, the close callback is called at
  most once more and the descriptor is closed at most once more; for a connection
  established from a state with no close behind it, that is at most once in all.
\<close>

theorem close_at_most_once:
  "(state (w_conn w) \<noteq> kConnected \<longrightarrow> handle_close w = w) \<and>
   (state (w_conn w) = kConnected \<longrightarrow>
      state (w_conn (handle_close w)) = kDisconnected \<and>
      close_cb_calls (handle_close w) = close_cb_calls w + (if close_cb (w_conn w) then 1 else 0) \<and>
      fd_closes (handle_close w) = fd_closes w + 1) \<and>
   (run_conn ops w = Some w' \<longrightarrow>
      close_cb_calls w' \<le> close_cb_calls w + 1 \<and> fd_closes w' \<le> fd_closes w + 1) \<and>
   (close_cb_calls w0 = 0 \<and> fd_closes w0 = 0 \<and>
    run_conn ops (connect_established w0) = Some w'' \<longrightarrow>
      close_cb_calls w'' \<le> 1 \<and> fd_closes w'' \<le> 1)"
proof -
  have 1: "state (w_conn w) \<noteq> kConnected \<longrightarrow> handle_close w = w"
    by (simp add: handle_close_not_connected)
  have 2: "state (w_conn w) = kConnected \<longrightarrow>
      state (w_conn (handle_close w)) = kDisconnected \<and>
      close_cb_calls (handle_close w) = close_cb_calls w + (if close_cb (w_conn w) then 1 else 0) \<and>
      fd_closes (handle_close w) = fd_closes w + 1"
    using handle_close_connected(1,2,3) [of w] by blast
  have gen: "close_cb_calls v' \<le> close_cb_calls v + 1 \<and> fd_closes v' \<le> fd_closes v + 1"
    if "run_conn ops v = Some v'" for v v'
    using step_ok_run_conn [OF that] by (auto simp: step_ok_def)
  have 3: "run_conn ops w = Some w' \<longrightarrow>
      close_cb_calls w' \<le> close_cb_calls w + 1 \<and> fd_closes w' \<le> fd_closes w + 1"
    using gen by blast
  have 4: "close_cb_calls w0 = 0 \<and> fd_closes w0 = 0 \<and>
    run_conn ops (connect_established w0) = Some w'' \<longrightarrow>
      close_cb_calls w'' \<le> 1 \<and> fd_closes w'' \<le> 1"
    using gen [of "connect_established w0" w''] connect_established_closes [of w0] by auto
  from 1 2 3 4 show ?thesis by blast
qed

theorem close_at_most_once_witness:
  "run_conn [Shutdown False, Shutdown False, HandleEvent 0x2000, DoPendingFunctors, HandleEvent 0x10]
     (connect_established (fresh_world [])) \<noteq> None \<and>
   close_cb_calls (the (run_conn
     [Shutdown False, Shutdown False, HandleEvent 0x2000, DoPendingFunctors, HandleEvent 0x10]
     (connect_established (fresh_world [])))) = 1 \<and>
   fd_closes (the (run_conn
     [Shutdown False, Shutdown False, HandleEvent 0x2000, DoPendingFunctors, HandleEvent 0x10]
     (connect_established (fresh_world [])))) = 1 \<and>
   handle_close (fresh_world []) = fresh_world []"
proof -
  let ?ops = "[Shutdown False, Shutdown False, HandleEvent 0x2000, DoPendingFunctors, HandleEvent 0x10]"
  from run_example obtain v where
    v: "run_conn ?ops (connect_established (fresh_world [])) = Some v"
    and t: "trace (w_io v) = [ConnectedCb, CloseCb, SysClose 5]"
    by auto
  have z: "close_cb_calls (fresh_world []) = 0 \<and> fd_closes (fresh_world []) = 0"
    by (simp add: fresh_world_def close_cb_calls_def fd_closes_def)
  have s: "state (w_conn (fresh_world [])) \<noteq> kConnected"
    by (simp add: fresh_world_def TcpConnection_new_def)
  from close_at_most_once [of "fresh_world []" ?ops v "fresh_world []" v] v z s
  have "close_cb_calls v \<le> 1" and "fd_closes v \<le> 1"
    and "handle_close (fresh_world []) = fresh_world []"
    by simp_all
  moreover from t have "close_cb_calls v \<ge> 1" and "fd_closes v \<ge> 1"
    by (simp_all add: close_cb_calls_def fd_closes_def)
  ultimately show ?thesis using v by simp
qed

text \<open>
  C4 (amended).  Every operation on a connection leaves the state atom where it is or
  moves it along one of the edges Connecting \<open>\<rightarrow>\<close> Connected, Connected \<open>\<rightarrow>\<close>
  Disconnecting, Disconnecting \<open>\<rightarrow>\<close> Disconnected, Connecting \<open>\<rightarrow>\<close> Disconnected or
  Connected \<open>\<rightarrow>\<close> Disconnected: \<open>connect_established\<close> on a Connecting connection,
  \<open>handle_close\<close>, \<open>shutdownInLoop\<close>, \<open>handle_write\<close>, and each event, send,
  shutdown, run of queued functors or input consumption.  Along a run the state never
  moves backward.
\<close>

theorem state_moves_forward:
  "(state (w_conn w) = kConnecting \<longrightarrow>
      (state (w_conn w), state (w_conn (connect_established w))) \<in> amended_edges) \<and>
   (state (w_conn (handle_close w)) = state (w_conn w) \<or>
      (state (w_conn w), state (w_conn (handle_close w))) \<in> amended_edges) \<and>
   (state (w_conn (shutdownInLoop w)) = state (w_conn w) \<or>
      (state (w_conn w), state (w_conn (shutdownInLoop w))) \<in> amended_edges) \<and>
   (handle_write w = Some w1 \<longrightarrow>
      state (w_conn w1) = state (w_conn w) \<or>
      (state (w_conn w), state (w_conn w1)) \<in> amended_edges) \<and>
   (conn_step opn w = Some w' \<longrightarrow>
      state (w_conn w') = state (w_conn w) \<or>
      (state (w_conn w), state (w_conn w')) \<in> amended_edges) \<and>
   (run_conn ops w = Some w'' \<longrightarrow> rank (state (w_conn w)) \<le> rank (state (w_conn w'')))"
proof -
  have e: "state (w_conn v') = state (w_conn v) \<or>
           (state (w_conn v), state (w_conn v')) \<in> amended_edges"
    and r: "rank (state (w_conn v)) \<le> rank (state (w_conn v'))"
    if "step_ok v v'" for v v'
    using that by (auto simp: step_ok_def amended_edges_def listed_edges_def)
  have 1: "state (w_conn w) = kConnecting \<longrightarrow>
      (state (w_conn w), state (w_conn (connect_established w))) \<in> amended_edges"
    using connect_established_closes [of w] by (simp add: amended_edges_def listed_edges_def)
  have 2: "state (w_conn (handle_close w)) = state (w_conn w) \<or>
      (state (w_conn w), state (w_conn (handle_close w))) \<in> amended_edges"
    using step_ok_handle_close by (rule e)
  have 3: "state (w_conn (shutdownInLoop w)) = state (w_conn w) \<or>
      (state (w_conn w), state (w_conn (shutdownInLoop w))) \<in> amended_edges"
    using step_ok_shutdownInLoop by (rule e)
  have 4: "handle_write w = Some w1 \<longrightarrow>
      state (w_conn w1) = state (w_conn w) \<or>
      (state (w_conn w), state (w_conn w1)) \<in> amended_edges"
    using step_ok_handle_write e by blast
  have 5: "conn_step opn w = Some w' \<longrightarrow>
      state (w_conn w') = state (w_conn w) \<or>
      (state (w_conn w), state (w_conn w')) \<in> amended_edges"
    using step_ok_conn_step e by blast
  have 6: "run_conn ops w = Some w'' \<longrightarrow> rank (state (w_conn w)) \<le> rank (state (w_conn w''))"
    using step_ok_run_conn r by blast
  from 1 2 3 4 5 6 show ?thesis by blast
qed

theorem state_moves_forward_witness:
  "(state (w_conn (fresh_world [])), state (w_conn (connect_established (fresh_world []))))
     \<in> amended_edges \<and>
   (state (w_conn (connect_established (fresh_world []))),
    state (w_conn (handle_close (connect_established (fresh_world []))))) \<in> amended_edges \<and>
   rank (state (w_conn (connect_established (fresh_world []))))
     \<le> rank (state (w_conn (the (run_conn
          [Shutdown False, Shutdown False, HandleEvent 0x2000, DoPendingFunctors, HandleEvent 0x10]
          (connect_established (fresh_world []))))))"
proof -
  let ?ops = "[Shutdown False, Shutdown False, HandleEvent 0x2000, DoPendingFunctors, HandleEvent 0x10]"
  let ?e = "connect_established (fresh_world [])"
  from run_example obtain v where v: "run_conn ?ops ?e = Some v" by auto
  have s: "state (w_conn (fresh_world [])) = kConnecting"
    by (simp add: fresh_world_def TcpConnection_new_def)
  have c: "state (w_conn ?e) = kConnected" by (simp add: established_fresh)
  have d: "state (w_conn (handle_close ?e)) = kDisconnected"
    using c by (rule handle_close_connected(1))
  from state_moves_forward [of "fresh_world []"] s
  have 1: "(state (w_conn (fresh_world [])), state (w_conn ?e)) \<in> amended_edges" by blast
  from state_moves_forward [of ?e] c d
  have 2: "(state (w_conn ?e), state (w_conn (handle_close ?e))) \<in> amended_edges" by simp
  from state_moves_forward [of ?e _ _ _ ?ops v] v
  have 3: "rank (state (w_conn ?e)) \<le> rank (state (w_conn v))" by blast
  from 1 2 3 v show ?thesis by simp
qed

text \<open>
  C4 as stated fails: \<open>handle_close\<close> takes a connected connection straight to
  Disconnected, and Connected \<open>\<rightarrow>\<close> Disconnected is not among the listed edges.
\<close>

theorem direct_close_counterexample:
  "state (w_conn (connect_established (fresh_world []))) = kConnected \<and>
   state (w_conn (handle_close (connect_established (fresh_world [])))) = kDisconnected \<and>
   (state (w_conn (connect_established (fresh_world []))),
    state (w_conn (handle_close (connect_established (fresh_world []))))) \<notin> listed_edges"
proof -
  have c: "state (w_conn (connect_established (fresh_world []))) = kConnected"
    by (simp add: established_fresh)
  then have d: "state (w_conn (handle_close (connect_established (fresh_world [])))) = kDisconnected"
    by (rule handle_close_connected(1))
  from c d show ?thesis by (simp add: listed_edges_def)
qed

end
